theory Spec2Isabelle
  imports Main "HOL-Library.Multiset" "HOL-Library.Word"
begin

section \<open>The host, its commands and the session object\<close>

text \<open>
  The programs below drive the host through \<^verbatim>\<open>exec.Command(...).Run()\<close> and
  \<^verbatim>\<open>.Output()\<close>. A command is its argument vector; the host is a parameter
  \<open>'h\<close> with an execution function that, for a host state and a command, gives whether
  the command exited without error, its standard output, and the host state afterwards.
  Every command that is started is appended to the trace, every \<^verbatim>\<open>Errorf\<close> and
  \<^verbatim>\<open>Warnf\<close> message to the log.
\<close>

type_synonym argv = "string list"

type_synonym 'h exec = "'h \<Rightarrow> argv \<Rightarrow> (bool \<times> string) \<times> 'h"

datatype event = Cmd argv | AnchorStop | DeviceClose

record 'h world =
  host :: 'h
  trace :: "event list"
  logs :: "string list"

datatype error =
    ExecError argv
  | NotFound
  | NilPointer
  | OutOfRange
  | Missing string

definition run :: "'h exec \<Rightarrow> argv \<Rightarrow> 'h world \<Rightarrow> (bool \<times> string) \<times> 'h world" where
  "run ex a w =
     (case ex (host w) a of
        (r, h') \<Rightarrow> (r, w\<lparr>host := h', trace := trace w @ [Cmd a]\<rparr>))"

definition logf :: "string \<Rightarrow> 'h world \<Rightarrow> 'h world" where
  "logf msg w = w\<lparr>logs := logs w @ [msg]\<rparr>"

definition emit :: "event \<Rightarrow> 'h world \<Rightarrow> 'h world" where
  "emit e w = w\<lparr>trace := trace w @ [e]\<rparr>"

text \<open>
  A run of commands each of which is followed by \<^verbatim>\<open>if err != nil { log; return err }\<close>:
  the first failing command ends the run with its error, after its message is logged.
\<close>

fun must :: "'h exec \<Rightarrow> (argv \<times> string) list \<Rightarrow> 'h world \<Rightarrow> error option \<times> 'h world" where
  "must ex [] w = (None, w)"
| "must ex ((a, msg) # rest) w =
     (case run ex a w of
        ((okay, _), w') \<Rightarrow>
          if okay then must ex rest w' else (Some (ExecError a), logf msg w'))"

text \<open>
  A run of commands each of which is followed by \<^verbatim>\<open>if err != nil { log }\<close> only:
  every command is started, failures are logged.
\<close>

fun attempt :: "'h exec \<Rightarrow> (argv \<times> string) list \<Rightarrow> 'h world \<Rightarrow> 'h world" where
  "attempt ex [] w = w"
| "attempt ex ((a, msg) # rest) w =
     (case run ex a w of
        ((okay, _), w') \<Rightarrow> attempt ex rest (if okay then w' else logf msg w'))"

text \<open>
  The tunnel endpoint (\<^verbatim>\<open>*veilnet.Anchor\<close>) and the virtual interface
  (\<^verbatim>\<open>tun.Device\<close>) are collaborators outside the repository. Of the anchor only the
  control-plane host it advertises is needed; \<^verbatim>\<open>c.anchor\<close> is a pointer, nil until
  \<^verbatim>\<open>Start\<close> creates the anchor. \<^verbatim>\<open>GetVeilHost\<close> reads the anchor it is called on,
  so a call through the nil pointer is the runtime's nil-pointer panic.
\<close>

record anchor =
  veilHost :: string

record tun_device =
  batch :: int

record conflux =
  anchor :: "anchor option"
  device :: "tun_device option"
  portal :: bool
  gateway :: string
  iface :: string
  bypassRoutes :: "(string \<times> string) list"
  ipForwardEnabled :: bool
  once :: bool

definition newConflux :: conflux where
  "newConflux =
     \<lparr>anchor = None, device = None, portal = False, gateway = [], iface = [],
      bypassRoutes = [], ipForwardEnabled = False, once = False\<rparr>"

definition GetVeilHost :: "anchor option \<Rightarrow> error + string" where
  "GetVeilHost a = (case a of None \<Rightarrow> Inl NilPointer | Some x \<Rightarrow> Inr (veilHost x))"

section \<open>macOS: netmask conversion and host configuration\<close>

definition convertNetmask :: "string \<Rightarrow> string" where
  "convertNetmask cidr =
     (if cidr = ''8'' then ''255.0.0.0''
      else if cidr = ''16'' then ''255.255.0.0''
      else if cidr = ''24'' then ''255.255.255.0''
      else if cidr = ''32'' then ''255.255.255.255''
      else ''255.255.255.0'')"

definition darwin_apply :: "conflux \<Rightarrow> string \<Rightarrow> string \<Rightarrow> (argv \<times> string) list" where
  "darwin_apply c ip netmask =
     [([''ifconfig'', ''veilnet'', ''up''], ''Failed to bring interface veilnet up''),
      ([''ifconfig'', ''veilnet'', ''inet'', ip, ''netmask'', convertNetmask netmask],
       ''Failed to set IP on veilnet''),
      ([''route'', ''-n'', ''delete'', ''default''], ''Failed to delete original default route''),
      ([''route'', ''-n'', ''add'', ''default'', gateway c, ''-hopcount'', ''10''],
       ''Failed to recreate default route with higher hopcount''),
      ([''route'', ''-n'', ''add'', ''default'', ''-interface'', ''veilnet'', ''-hopcount'', ''5''],
       ''Failed to set default route'')]"

definition ConfigHost_darwin ::
  "'h exec \<Rightarrow> conflux \<Rightarrow> string \<Rightarrow> string \<Rightarrow> 'h world \<Rightarrow> error option \<times> 'h world" where
  "ConfigHost_darwin ex c ip netmask w =
     (case GetVeilHost (anchor c) of
        Inl e \<Rightarrow> (Some e, w)
      | Inr vh \<Rightarrow>
          must ex (darwin_apply c ip netmask)
            (if vh \<noteq> []
             then snd (run ex [''route'', ''-n'', ''add'', vh, gateway c, ''-interface'', iface c] w)
             else w))"

section \<open>Bypass routes\<close>

text \<open>
  \<^verbatim>\<open>net.IP\<close> is a byte slice of length 4 or 16. \<^verbatim>\<open>To4\<close> gives the four bytes of an
  IPv4 address (also of one in its 16-byte form) and nil otherwise; \<^verbatim>\<open>String\<close> of a
  four-byte address is its dotted decimal form.
\<close>

type_synonym ip = "nat list"

definition To4 :: "ip \<Rightarrow> ip option" where
  "To4 a =
     (if length a = 4 then Some a
      else if length a = 16 \<and> take 10 a = replicate 10 0 \<and> a ! 10 = 255 \<and> a ! 11 = 255
      then Some (drop 12 a)
      else None)"

definition digit :: "nat \<Rightarrow> char" where
  "digit n = ''0123456789'' ! n"

fun itoa :: "nat \<Rightarrow> string" where
  "itoa n = (if n < 10 then [digit n] else itoa (n div 10) @ [digit (n mod 10)])"

declare itoa.simps [simp del]

definition ip4_String :: "ip \<Rightarrow> string" where
  "ip4_String a =
     itoa (a ! 0) @ ''.'' @ itoa (a ! 1) @ ''.'' @ itoa (a ! 2) @ ''.'' @ itoa (a ! 3)"

datatype platform = Linux | Darwin | Windows

definition bypass_hosts :: "platform \<Rightarrow> string list" where
  "bypass_hosts p =
     (case p of
        Darwin \<Rightarrow> [''stun.cloudflare.com'', ''turn.cloudflare.com'', ''guardian.veilnet.org'',
                   ''turn.veilnet.org'']
      | _ \<Rightarrow> [''stun.cloudflare.com'', ''turn.cloudflare.com'', ''guardian.veilnet.org''])"

definition bypass_add_cmd :: "platform \<Rightarrow> string \<Rightarrow> string \<Rightarrow> string \<Rightarrow> argv" where
  "bypass_add_cmd p gw ifc dest =
     (case p of
        Linux \<Rightarrow> [''ip'', ''route'', ''add'', dest, ''via'', gw, ''dev'', ifc]
      | Darwin \<Rightarrow> [''route'', ''-n'', ''add'', dest, gw, ''-interface'', ifc]
      | Windows \<Rightarrow> [''route'', ''add'', dest, ''mask'', ''255.255.255.255'', gw])"

definition bypass_del_cmd :: "platform \<Rightarrow> string \<Rightarrow> string \<Rightarrow> argv" where
  "bypass_del_cmd p gw dest =
     (case p of
        Linux \<Rightarrow> [''ip'', ''route'', ''del'', dest]
      | Darwin \<Rightarrow> [''route'', ''-n'', ''del'', dest]
      | Windows \<Rightarrow> [''route'', ''delete'', dest, ''mask'', ''255.255.255.255'', gw])"

text \<open>
  \<^verbatim>\<open>bypassRoutes\<close> is a \<^verbatim>\<open>sync.Map\<close> from hostname to address string. \<^verbatim>\<open>Store\<close>
  replaces the value of a key that is present and adds the key otherwise.
\<close>

fun Store :: "'k \<Rightarrow> 'v \<Rightarrow> ('k \<times> 'v) list \<Rightarrow> ('k \<times> 'v) list" where
  "Store k v [] = [(k, v)]"
| "Store k v ((k', v') # m) = (if k' = k then (k, v) # m else (k', v') # Store k v m)"

text \<open>The inner loop of \<^verbatim>\<open>AddBypassRoutes\<close>, over the addresses of one hostname.\<close>

fun add_ips ::
  "'h exec \<Rightarrow> platform \<Rightarrow> string \<Rightarrow> ip list \<Rightarrow> conflux \<times> 'h world \<Rightarrow> conflux \<times> 'h world" where
  "add_ips ex p h [] cw = cw"
| "add_ips ex p h (a # as) (c, w) =
     (case To4 a of
        None \<Rightarrow> add_ips ex p h as (c, w)
      | Some ip4 \<Rightarrow>
          add_ips ex p h as
            (c\<lparr>bypassRoutes := Store h (ip4_String ip4) (bypassRoutes c)\<rparr>,
             snd (run ex (bypass_add_cmd p (gateway c) (iface c) (ip4_String ip4)) w)))"

text \<open>
  The outer loop; \<open>lk\<close> is \<^verbatim>\<open>net.LookupIP\<close>, \<open>None\<close> when the lookup fails.
\<close>

fun add_hosts ::
  "'h exec \<Rightarrow> platform \<Rightarrow> (string \<Rightarrow> ip list option) \<Rightarrow> string list \<Rightarrow>
   conflux \<times> 'h world \<Rightarrow> conflux \<times> 'h world" where
  "add_hosts ex p lk [] cw = cw"
| "add_hosts ex p lk (h # hs) (c, w) =
     (case lk h of
        None \<Rightarrow> add_hosts ex p lk hs (c, logf (''Failed to resolve '' @ h) w)
      | Some ips \<Rightarrow> add_hosts ex p lk hs (add_ips ex p h ips (c, w)))"

definition AddBypassRoutes ::
  "'h exec \<Rightarrow> platform \<Rightarrow> (string \<Rightarrow> ip list option) \<Rightarrow> conflux \<Rightarrow> 'h world \<Rightarrow>
   conflux \<times> 'h world" where
  "AddBypassRoutes ex p lk c w = add_hosts ex p lk (bypass_hosts p) (c, w)"

text \<open>
  \<^verbatim>\<open>Range\<close> calls its function on the entries one after the other and stops as soon
  as the function returns false. The order in which a \<^verbatim>\<open>sync.Map\<close> is ranged over is
  not fixed by the library: it is the parameter \<open>ord\<close>, which arranges the entries.
\<close>

fun range_del ::
  "'h exec \<Rightarrow> platform \<Rightarrow> string \<Rightarrow> (string \<times> string) list \<Rightarrow> 'h world \<Rightarrow> 'h world" where
  "range_del ex p gw [] w = w"
| "range_del ex p gw ((k, v) # es) w =
     (case run ex (bypass_del_cmd p gw v) w of
        ((okay, _), w') \<Rightarrow>
          if okay then range_del ex p gw es w'
          else logf (''Failed to clear bypass route for '' @ k) w')"

definition RemoveBypassRoutes ::
  "'h exec \<Rightarrow> platform \<Rightarrow> ((string \<times> string) list \<Rightarrow> (string \<times> string) list) \<Rightarrow>
   conflux \<Rightarrow> 'h world \<Rightarrow> conflux \<times> 'h world" where
  "RemoveBypassRoutes ex p ord c w =
     (c, range_del ex p (gateway c) (ord (bypassRoutes c)) w)"

text \<open>
  For the statements: the (hostname, address) pairs that a run of \<^verbatim>\<open>AddBypassRoutes\<close>
  meets, in the order it meets them, and whether a run of deletes meets no failure.
\<close>

definition ipv4s :: "ip list \<Rightarrow> string list" where
  "ipv4s as = map ip4_String (List.map_filter To4 as)"

definition resolved :: "(string \<Rightarrow> ip list option) \<Rightarrow> string list \<Rightarrow> (string \<times> string) list" where
  "resolved lk hs =
     concat (map (\<lambda>h. case lk h of None \<Rightarrow> [] | Some as \<Rightarrow> map (Pair h) (ipv4s as)) hs)"

fun deletes_ok ::
  "'h exec \<Rightarrow> platform \<Rightarrow> string \<Rightarrow> (string \<times> string) list \<Rightarrow> 'h world \<Rightarrow> bool" where
  "deletes_ok ex p gw [] w = True"
| "deletes_ok ex p gw ((k, v) # es) w =
     (case run ex (bypass_del_cmd p gw v) w of
        ((okay, _), w') \<Rightarrow> okay \<and> deletes_ok ex p gw es w')"

section \<open>Packet relay: ingress\<close>

text \<open>
  One pass through the default branch of the ingress loop. The batched read of the tunnel
  endpoint is the parameter \<open>rd\<close>: for the buffers it is handed it gives the number of
  datagrams, whether it failed, and the buffers as it leaves them. The macOS variant has a
  read without error result and writes only when the number is positive.
\<close>

type_synonym byte = "8 word"

datatype write_call = DeviceWrite "byte list list" int

function frame_from :: "nat \<Rightarrow> int \<Rightarrow> byte list list \<Rightarrow> error + byte list list" where
  "frame_from i n bufs =
     (if int i < n
      then (if i < length bufs
            then frame_from (Suc i) n (bufs[i := replicate 16 0 @ bufs ! i])
            else Inl OutOfRange)
      else Inr bufs)"
  by pat_completeness auto
termination
  by (relation "measure (\<lambda>(i, n, bufs). nat (n - int i))") auto

declare frame_from.simps [simp del]

definition slice_to :: "int \<Rightarrow> 'a list \<Rightarrow> error + 'a list" where
  "slice_to n xs =
     (if 0 \<le> n \<and> nat n \<le> length xs then Inr (take (nat n) xs) else Inl OutOfRange)"

definition ingress_step ::
  "platform \<Rightarrow> (byte list list \<Rightarrow> (int \<times> bool) \<times> byte list list) \<Rightarrow> byte list list \<Rightarrow>
   error + (write_call option \<times> byte list list)" where
  "ingress_step p rd bufs =
     (case rd bufs of
        ((n, err), bufs1) \<Rightarrow>
          if p \<noteq> Darwin \<and> err then Inr (None, bufs1)
          else
            (case frame_from 0 n bufs1 of
               Inl e \<Rightarrow> Inl e
             | Inr bufs2 \<Rightarrow>
                 if p = Darwin \<and> \<not> 0 < n then Inr (None, bufs2)
                 else
                   (case slice_to n bufs2 of
                      Inl e \<Rightarrow> Inl e
                    | Inr b \<Rightarrow> Inr (Some (DeviceWrite b 16), bufs2))))"

fun ingress ::
  "platform \<Rightarrow> (byte list list \<Rightarrow> (int \<times> bool) \<times> byte list list) list \<Rightarrow> byte list list \<Rightarrow>
   write_call list \<times> error option" where
  "ingress p [] bufs = ([], None)"
| "ingress p (rd # rds) bufs =
     (case ingress_step p rd bufs of
        Inl e \<Rightarrow> ([], Some e)
      | Inr (wc, bufs') \<Rightarrow>
          (case ingress p rds bufs' of
             (ws, r) \<Rightarrow> ((case wc of None \<Rightarrow> [] | Some x \<Rightarrow> [x]) @ ws, r)))"

section \<open>Process surface\<close>

text \<open>
  \<^verbatim>\<open>Up.Run\<close> from the result of \<^verbatim>\<open>Start\<close> on: after the stop signal it waits for
  the end of \<^verbatim>\<open>Stop\<close> or for ten seconds, whichever comes first; which of the two
  happened is the parameter. \<^verbatim>\<open>main\<close> exits with code 1 on an error of \<^verbatim>\<open>Run\<close>
  and returns, which is exit code 0, otherwise.
\<close>

datatype shutdown = Completed | TimedOut

definition Up_Run ::
  "string \<Rightarrow> string \<Rightarrow> error option \<Rightarrow> shutdown \<Rightarrow> error option \<times> string list" where
  "Up_Run guardian token started sd =
     (if guardian = [] then (Some (Missing ''guardian url is not set''), [])
      else if token = [] then (Some (Missing ''conflux token is not set''), [])
      else
        (case started of
           Some e \<Rightarrow> (Some e, [])
         | None \<Rightarrow>
             (case sd of
                Completed \<Rightarrow>
                  (None, [''Received shutdown signal, shutting down...'',
                          ''Shutdown completed successfully''])
              | TimedOut \<Rightarrow>
                  (None, [''Received shutdown signal, shutting down...'',
                          ''Shutdown timeout, forcing exit'']))))"

definition main_exit :: "error option \<Rightarrow> int" where
  "main_exit err = (case err of Some e \<Rightarrow> 1 | None \<Rightarrow> 0)"

section \<open>Strings\<close>

text \<open>
  Go strings are byte sequences in UTF-8. \<^verbatim>\<open>strings.Fields\<close> and
  \<^verbatim>\<open>strings.TrimSpace\<close> treat the runes of \<^verbatim>\<open>unicode.IsSpace\<close> as white space:
  six ASCII characters, U+0085, U+00A0, U+1680, U+2000 to U+200A, U+2028, U+2029, U+202F,
  U+205F and U+3000. \<open>space_width\<close> is the number of bytes of the white-space rune a
  string starts with, 0 when it starts with none.
\<close>

definition ascii_space :: "char \<Rightarrow> bool" where
  "ascii_space ch = (ch \<in> set [CHR 0x09, CHR 0x0A, CHR 0x0B, CHR 0x0C, CHR 0x0D, CHR 0x20])"

fun space_width :: "string \<Rightarrow> nat" where
  "space_width [] = 0"
| "space_width [a] = (if ascii_space a then 1 else 0)"
| "space_width [a, b] =
     (if ascii_space a then 1
      else if a = CHR 0xC2 \<and> (b = CHR 0x85 \<or> b = CHR 0xA0) then 2 else 0)"
| "space_width (a # b # c # s) =
     (if ascii_space a then 1
      else if a = CHR 0xC2 \<and> (b = CHR 0x85 \<or> b = CHR 0xA0) then 2
      else if a = CHR 0xE1 \<and> b = CHR 0x9A \<and> c = CHR 0x80 then 3
      else if a = CHR 0xE2 \<and> b = CHR 0x80 \<and>
              ((0x80 \<le> (of_char c :: nat) \<and> (of_char c :: nat) \<le> 0x8A) \<or>
               c = CHR 0xA8 \<or> c = CHR 0xA9 \<or> c = CHR 0xAF) then 3
      else if a = CHR 0xE2 \<and> b = CHR 0x81 \<and> c = CHR 0x9F then 3
      else if a = CHR 0xE3 \<and> b = CHR 0x80 \<and> c = CHR 0x80 then 3
      else 0)"

text \<open>The same from the end of a string, on the reversed string.\<close>

fun space_width_rev :: "string \<Rightarrow> nat" where
  "space_width_rev [] = 0"
| "space_width_rev [a] = (if ascii_space a then 1 else 0)"
| "space_width_rev [b, a] =
     (if ascii_space b then 1 else if space_width [a, b] = 2 then 2 else 0)"
| "space_width_rev (c # b # a # s) =
     (if ascii_space c then 1
      else if space_width [b, c] = 2 then 2
      else if space_width [a, b, c] = 3 then 3
      else 0)"

fun Fields_from :: "string \<Rightarrow> string \<Rightarrow> string list" where
  "Fields_from cur [] = (if cur = [] then [] else [cur])"
| "Fields_from cur (a # s) =
     (if space_width (a # s) = 0 then Fields_from (cur @ [a]) s
      else (if cur = [] then [] else [cur]) @ Fields_from [] (drop (space_width (a # s) - 1) s))"

definition Fields :: "string \<Rightarrow> string list" where
  "Fields s = Fields_from [] s"

fun trim_left :: "string \<Rightarrow> string" where
  "trim_left [] = []"
| "trim_left (a # s) =
     (if space_width (a # s) = 0 then a # s else trim_left (drop (space_width (a # s) - 1) s))"

fun trim_left_rev :: "string \<Rightarrow> string" where
  "trim_left_rev [] = []"
| "trim_left_rev (a # s) =
     (if space_width_rev (a # s) = 0 then a # s
      else trim_left_rev (drop (space_width_rev (a # s) - 1) s))"

definition TrimSpace :: "string \<Rightarrow> string" where
  "TrimSpace s = rev (trim_left_rev (rev (trim_left s)))"

definition HasPrefix :: "string \<Rightarrow> string \<Rightarrow> bool" where
  "HasPrefix s pre = (take (length pre) s = pre)"

definition TrimPrefix :: "string \<Rightarrow> string \<Rightarrow> string" where
  "TrimPrefix s pre = (if HasPrefix s pre then drop (length pre) s else s)"

text \<open>\<^verbatim>\<open>strings.Split(s, "\n")\<close>: the pieces between line feeds, at least one.\<close>

fun Split_from :: "string \<Rightarrow> string \<Rightarrow> string list" where
  "Split_from cur [] = [cur]"
| "Split_from cur (a # s) =
     (if a = CHR 0x0A then cur # Split_from [] s else Split_from (cur @ [a]) s)"

definition Split_lines :: "string \<Rightarrow> string list" where
  "Split_lines s = Split_from [] s"

section \<open>Gateway detection\<close>

text \<open>
  Linux. The inner loop over the fields of the default line: a field "via" or "dev" that
  has a successor sets the gateway or the interface to it.
\<close>

fun scan_fields :: "string list \<Rightarrow> string \<times> string \<Rightarrow> string \<times> string" where
  "scan_fields [] gi = gi"
| "scan_fields [f] gi = gi"
| "scan_fields (f # nxt # rest) (g, i) =
     scan_fields (nxt # rest) (if f = ''via'' then nxt else g, if f = ''dev'' then nxt else i)"

text \<open>The loop over the lines, left at the first line that starts with "default".\<close>

fun scan_lines :: "string list \<Rightarrow> string \<times> string" where
  "scan_lines [] = ([], [])"
| "scan_lines (l # ls) =
     (if HasPrefix l ''default'' then scan_fields (Fields l) ([], []) else scan_lines ls)"

definition DetectHostGateway_linux ::
  "'h exec \<Rightarrow> conflux \<Rightarrow> 'h world \<Rightarrow> error option \<times> conflux \<times> 'h world" where
  "DetectHostGateway_linux ex c w =
     (case run ex [''ip'', ''route'', ''show'', ''default''] w of
        ((okay, out), w') \<Rightarrow>
          if \<not> okay
          then (Some (ExecError [''ip'', ''route'', ''show'', ''default'']),
                c, logf ''Failed to get default route'' w')
          else
            (case scan_lines (Split_lines out) of
               (g, i) \<Rightarrow>
                 if g = [] \<or> i = []
                 then (Some NotFound, c, logf ''Host default gateway or interface not found'' w')
                 else (None, c\<lparr>gateway := g, iface := i\<rparr>, w')))"

text \<open>
  macOS. Every line is trimmed; a line that starts with "gateway:" or "interface:" sets
  the field of the session, and the loop goes through all lines.
\<close>

fun scan_route_get :: "string list \<Rightarrow> conflux \<Rightarrow> conflux" where
  "scan_route_get [] c = c"
| "scan_route_get (l # ls) c =
     scan_route_get ls
       ((if HasPrefix (TrimSpace l) ''interface:''
         then (\<lambda>c. c\<lparr>iface := TrimSpace (TrimPrefix (TrimSpace l) ''interface:'')\<rparr>)
         else (\<lambda>c. c))
        ((if HasPrefix (TrimSpace l) ''gateway:''
          then (\<lambda>c. c\<lparr>gateway := TrimSpace (TrimPrefix (TrimSpace l) ''gateway:'')\<rparr>)
          else (\<lambda>c. c)) c))"

definition DetectHostGateway_darwin ::
  "'h exec \<Rightarrow> conflux \<Rightarrow> 'h world \<Rightarrow> error option \<times> conflux \<times> 'h world" where
  "DetectHostGateway_darwin ex c w =
     (case run ex [''route'', ''-n'', ''get'', ''default''] w of
        ((okay, out), w') \<Rightarrow>
          if \<not> okay
          then (Some (ExecError [''route'', ''-n'', ''get'', ''default'']),
                c, logf ''Failed to get default route'' w')
          else
            (case scan_route_get (Split_lines out) c of
               c' \<Rightarrow>
                 if gateway c' = [] \<or> iface c' = []
                 then (Some NotFound, c', logf ''Host default gateway or interface not found'' w')
                 else (None, c', w')))"

text \<open>
  For the statements: the value after the tag on the last line that, trimmed, starts with
  the tag; a default when there is no such line.
\<close>

definition last_tagged :: "string \<Rightarrow> string list \<Rightarrow> string \<Rightarrow> string" where
  "last_tagged tag ls dflt =
     (case find (\<lambda>l. HasPrefix (TrimSpace l) tag) (rev ls) of
        None \<Rightarrow> dflt
      | Some l \<Rightarrow> TrimSpace (TrimPrefix (TrimSpace l) tag))"

section \<open>Host configuration\<close>

text \<open>Linux: the commands of \<^verbatim>\<open>ConfigHost\<close>, each of which ends the configuration on failure.\<close>

definition linux_addr :: "string \<Rightarrow> string \<Rightarrow> (argv \<times> string) list" where
  "linux_addr ip netmask =
     [([''ip'', ''addr'', ''flush'', ''dev'', ''veilnet''], ''failed to clear existing IPs''),
      ([''ip'', ''addr'', ''add'', ip @ ''/'' @ netmask, ''dev'', ''veilnet''],
       ''failed to set IP address''),
      ([''ip'', ''link'', ''set'', ''up'', ''veilnet''], ''failed to set interface up'')]"

definition linux_portal_rules :: "conflux \<Rightarrow> (argv \<times> string) list" where
  "linux_portal_rules c =
     [([''iptables'', ''-A'', ''FORWARD'', ''-i'', ''veilnet'', ''-j'', ''ACCEPT''],
       ''failed to set inbound iptables FORWARD rules''),
      ([''iptables'', ''-A'', ''FORWARD'', ''-o'', ''veilnet'', ''-j'', ''ACCEPT''],
       ''failed to set outbound iptables FORWARD rules''),
      ([''iptables'', ''-t'', ''nat'', ''-A'', ''POSTROUTING'', ''-o'', iface c, ''-j'', ''MASQUERADE''],
       ''failed to set NAT rules'')]"

definition linux_rift_routes :: "conflux \<Rightarrow> (argv \<times> string) list" where
  "linux_rift_routes c =
     [([''ip'', ''route'', ''del'', ''default'', ''via'', gateway c, ''dev'', iface c],
       ''Failed to delete default route''),
      ([''ip'', ''route'', ''add'', ''default'', ''via'', gateway c, ''dev'', iface c,
        ''metric'', ''50''],
       ''Failed to add default route''),
      ([''ip'', ''route'', ''add'', ''default'', ''dev'', ''veilnet''],
       ''Failed to set default route'')]"

definition ConfigHost_linux ::
  "'h exec \<Rightarrow> conflux \<Rightarrow> string \<Rightarrow> string \<Rightarrow> 'h world \<Rightarrow> error option \<times> conflux \<times> 'h world" where
  "ConfigHost_linux ex c ip netmask w =
     (case GetVeilHost (anchor c) of
        Inl e \<Rightarrow> (Some e, c, w)
      | Inr vh \<Rightarrow>
          (case must ex (linux_addr ip netmask)
                  (if vh \<noteq> []
                   then snd (run ex [''ip'', ''route'', ''add'', vh, ''via'', gateway c,
                                     ''dev'', iface c] w)
                   else w) of
             (Some e, w1) \<Rightarrow> (Some e, c, w1)
           | (None, w1) \<Rightarrow>
               if portal c
               then
                 (case must ex (linux_portal_rules c) w1 of
                    (Some e, w2) \<Rightarrow> (Some e, c, w2)
                  | (None, w2) \<Rightarrow>
                      (case run ex [''sysctl'', ''-n'', ''net.ipv4.ip_forward''] w2 of
                         ((okay, out), w3) \<Rightarrow>
                           if \<not> okay
                           then (Some (ExecError [''sysctl'', ''-n'', ''net.ipv4.ip_forward'']), c,
                                 logf ''failed to check IP forwarding status'' w3)
                           else if TrimSpace out = ''1''
                           then (None, c\<lparr>ipForwardEnabled := True\<rparr>, w3)
                           else
                             (case must ex
                                     [([''sysctl'', ''-w'', ''net.ipv4.ip_forward=1''],
                                       ''failed to enable IP forwarding'')] w3 of
                                (r, w4) \<Rightarrow> (r, c\<lparr>ipForwardEnabled := False\<rparr>, w4))))
               else
                 (case must ex (linux_rift_routes c) w1 of
                    (r, w2) \<Rightarrow> (r, c, w2))))"

text \<open>
  Linux: \<^verbatim>\<open>CleanHostConfiguraions\<close>. Every command is started whatever the earlier
  ones returned. The first step calls \<^verbatim>\<open>GetVeilHost\<close> on \<^verbatim>\<open>c.anchor\<close>.
\<close>

definition linux_portal_clean :: "conflux \<Rightarrow> (argv \<times> string) list" where
  "linux_portal_clean c =
     [([''iptables'', ''-D'', ''FORWARD'', ''-i'', ''veilnet'', ''-j'', ''ACCEPT''],
       ''failed to remove inbound iptables FORWARD rule''),
      ([''iptables'', ''-D'', ''FORWARD'', ''-o'', ''veilnet'', ''-j'', ''ACCEPT''],
       ''failed to remove outbound iptables FORWARD rule''),
      ([''iptables'', ''-t'', ''nat'', ''-D'', ''POSTROUTING'', ''-o'', iface c, ''-j'', ''MASQUERADE''],
       ''failed to remove NAT rule'')] @
     (if \<not> ipForwardEnabled c
      then [([''sysctl'', ''-w'', ''net.ipv4.ip_forward=0''], ''failed to disable IP forwarding'')]
      else [])"

definition linux_rift_clean :: "conflux \<Rightarrow> (argv \<times> string) list" where
  "linux_rift_clean c =
     [([''ip'', ''route'', ''del'', ''default'', ''dev'', ''veilnet''],
       ''Failed to remove veilnet TUN as default route''),
      ([''ip'', ''route'', ''del'', ''default'', ''via'', gateway c, ''dev'', iface c],
       ''Failed to delete altered host default route''),
      ([''ip'', ''route'', ''add'', ''default'', ''via'', gateway c, ''dev'', iface c],
       ''Failed to restore default route on host'')]"

definition CleanHostConfiguraions_linux ::
  "'h exec \<Rightarrow> conflux \<Rightarrow> 'h world \<Rightarrow> error option \<times> 'h world" where
  "CleanHostConfiguraions_linux ex c w =
     (case GetVeilHost (anchor c) of
        Inl e \<Rightarrow> (Some e, w)
      | Inr vh \<Rightarrow>
          (None,
           attempt ex (if portal c then linux_portal_clean c else linux_rift_clean c)
             (if vh \<noteq> []
              then snd (run ex [''ip'', ''route'', ''del'', vh, ''via'', gateway c,
                                ''dev'', iface c] w)
              else w)))"

text \<open>macOS: \<^verbatim>\<open>CleanHostConfiguraions\<close>.\<close>

definition darwin_clean :: "conflux \<Rightarrow> (argv \<times> string) list" where
  "darwin_clean c =
     [([''route'', ''-n'', ''delete'', ''default'', ''-interface'', ''veilnet''],
       ''Failed to delete TUN default route''),
      ([''route'', ''-n'', ''delete'', ''default''], ''Failed to delete altered default route''),
      ([''route'', ''-n'', ''add'', ''default'', gateway c], ''Failed to restore host default route'')]"

definition CleanHostConfiguraions_darwin ::
  "'h exec \<Rightarrow> conflux \<Rightarrow> 'h world \<Rightarrow> error option \<times> 'h world" where
  "CleanHostConfiguraions_darwin ex c w =
     (case GetVeilHost (anchor c) of
        Inl e \<Rightarrow> (Some e, w)
      | Inr vh \<Rightarrow>
          (None,
           attempt ex (darwin_clean c)
             (if vh \<noteq> []
              then snd (run ex [''route'', ''-n'', ''del'', vh, gateway c] w)
              else w)))"

section \<open>Shutdown\<close>

text \<open>
  \<^verbatim>\<open>Stop\<close> runs its body under \<^verbatim>\<open>sync.Once\<close>: the first call runs it, and the
  guard counts the body as done also when it panics; later calls return at once. The
  Linux body sets \<^verbatim>\<open>c.anchor\<close> to nil after stopping the anchor, the macOS body does
  not. A panic ends the body where it occurs.
\<close>

definition Stop_linux ::
  "'h exec \<Rightarrow> ((string \<times> string) list \<Rightarrow> (string \<times> string) list) \<Rightarrow> conflux \<Rightarrow> 'h world \<Rightarrow>
   error option \<times> conflux \<times> 'h world" where
  "Stop_linux ex ord c w =
     (if once c then (None, c, w)
      else
        (case CleanHostConfiguraions_linux ex (c\<lparr>once := True, anchor := None\<rparr>)
                (if anchor c \<noteq> None then emit AnchorStop w else w) of
           (Some e, w1) \<Rightarrow> (Some e, c\<lparr>once := True, anchor := None\<rparr>, w1)
         | (None, w1) \<Rightarrow>
             (case RemoveBypassRoutes ex Linux ord (c\<lparr>once := True, anchor := None\<rparr>) w1 of
                (c2, w2) \<Rightarrow>
                  (None, c2, if device c2 \<noteq> None then emit DeviceClose w2 else w2))))"

definition Stop_darwin ::
  "'h exec \<Rightarrow> ((string \<times> string) list \<Rightarrow> (string \<times> string) list) \<Rightarrow> conflux \<Rightarrow> 'h world \<Rightarrow>
   error option \<times> conflux \<times> 'h world" where
  "Stop_darwin ex ord c w =
     (if once c then (None, c, w)
      else
        (case CleanHostConfiguraions_darwin ex (c\<lparr>once := True\<rparr>)
                (if anchor c \<noteq> None then emit AnchorStop w else w) of
           (Some e, w1) \<Rightarrow> (Some e, c\<lparr>once := True\<rparr>, w1)
         | (None, w1) \<Rightarrow>
             (case RemoveBypassRoutes ex Darwin ord (c\<lparr>once := True\<rparr>) w1 of
                (c2, w2) \<Rightarrow>
                  (None, c2, if device c2 \<noteq> None then emit DeviceClose w2 else w2))))"

text \<open>A number of calls of \<^verbatim>\<open>Stop\<close> one after the other; a panic ends the sequence.\<close>

fun Stops ::
  "(conflux \<Rightarrow> 'h world \<Rightarrow> error option \<times> conflux \<times> 'h world) \<Rightarrow> nat \<Rightarrow> conflux \<Rightarrow> 'h world \<Rightarrow>
   error option \<times> conflux \<times> 'h world" where
  "Stops stop 0 c w = (None, c, w)"
| "Stops stop (Suc n) c w =
     (case stop c w of
        (Some e, c', w') \<Rightarrow> (Some e, c', w')
      | (None, c', w') \<Rightarrow> Stops stop n c' w')"

section \<open>A Linux host\<close>

text \<open>
  The part of a Linux host that the commands above act on: the routes of the main table,
  kept in the order of their metrics as the kernel lists them, the network devices, the
  \<^verbatim>\<open>net.ipv4.ip_forward\<close> switch and the firewall rules. \<^verbatim>\<open>ip route add\<close> without
  a metric adds a route of metric 0 and fails when the device is missing or a route with
  the same destination and metric exists; \<^verbatim>\<open>ip route del\<close> removes the first route
  that matches the fields it names and fails when there is none; the address and link
  commands need their device; \<^verbatim>\<open>iptables -A\<close> appends a rule and \<^verbatim>\<open>-D\<close> removes
  one that is there; \<^verbatim>\<open>sysctl\<close> reads and writes the switch. Any other command fails.
\<close>

record route =
  dst :: string
  via :: string
  dev :: string
  metric :: nat

record linux_host =
  routes :: "route list"
  links :: "string list"
  ip_forward :: bool
  rules :: "argv list"

definition route_add :: "route \<Rightarrow> linux_host \<Rightarrow> (bool \<times> string) \<times> linux_host" where
  "route_add r h =
     (if dev r \<notin> set (links h) \<or> list_ex (\<lambda>x. dst x = dst r \<and> metric x = metric r) (routes h)
      then ((False, []), h)
      else ((True, []), h\<lparr>routes := insort_key metric r (routes h)\<rparr>))"

fun del_first :: "('a \<Rightarrow> bool) \<Rightarrow> 'a list \<Rightarrow> 'a list option" where
  "del_first P [] = None"
| "del_first P (x # xs) = (if P x then Some xs else map_option ((#) x) (del_first P xs))"

definition route_del :: "(route \<Rightarrow> bool) \<Rightarrow> linux_host \<Rightarrow> (bool \<times> string) \<times> linux_host" where
  "route_del P h =
     (case del_first P (routes h) of
        None \<Rightarrow> ((False, []), h)
      | Some rs \<Rightarrow> ((True, []), h\<lparr>routes := rs\<rparr>))"

definition needs_link :: "string \<Rightarrow> linux_host \<Rightarrow> (bool \<times> string) \<times> linux_host" where
  "needs_link l h = ((l \<in> set (links h), []), h)"

fun atoi_from :: "nat \<Rightarrow> string \<Rightarrow> nat option" where
  "atoi_from n [] = Some n"
| "atoi_from n (ch # s) =
     (if ch \<in> set ''0123456789''
      then atoi_from (10 * n + (of_char ch - 48)) s
      else None)"

definition atoi :: "string \<Rightarrow> nat option" where
  "atoi s = (if s = [] then None else atoi_from 0 s)"

definition show_route :: "route \<Rightarrow> string" where
  "show_route r =
     dst r @ (if via r = [] then [] else '' via '' @ via r) @ '' dev '' @ dev r @
     (if via r = [] then '' scope link'' else []) @
     (if metric r = 0 then [] else '' metric '' @ itoa (metric r)) @ [CHR 0x0A]"

definition linux_exec :: "linux_host exec" where
  "linux_exec h a =
     (if a = [''ip'', ''route'', ''show'', ''default'']
      then ((True, concat (map show_route (filter (\<lambda>r. dst r = ''default'') (routes h)))), h)
      else if length a = 8 \<and> take 3 a = [''ip'', ''route'', ''add''] \<and> a ! 4 = ''via'' \<and>
              a ! 6 = ''dev''
      then route_add \<lparr>dst = a ! 3, via = a ! 5, dev = a ! 7, metric = 0\<rparr> h
      else if length a = 10 \<and> take 3 a = [''ip'', ''route'', ''add''] \<and> a ! 4 = ''via'' \<and>
              a ! 6 = ''dev'' \<and> a ! 8 = ''metric''
      then (case atoi (a ! 9) of
              None \<Rightarrow> ((False, []), h)
            | Some m \<Rightarrow> route_add \<lparr>dst = a ! 3, via = a ! 5, dev = a ! 7, metric = m\<rparr> h)
      else if length a = 6 \<and> take 3 a = [''ip'', ''route'', ''add''] \<and> a ! 4 = ''dev''
      then route_add \<lparr>dst = a ! 3, via = [], dev = a ! 5, metric = 0\<rparr> h
      else if length a = 8 \<and> take 3 a = [''ip'', ''route'', ''del''] \<and> a ! 4 = ''via'' \<and>
              a ! 6 = ''dev''
      then route_del (\<lambda>r. dst r = a ! 3 \<and> via r = a ! 5 \<and> dev r = a ! 7) h
      else if length a = 6 \<and> take 3 a = [''ip'', ''route'', ''del''] \<and> a ! 4 = ''dev''
      then route_del (\<lambda>r. dst r = a ! 3 \<and> dev r = a ! 5) h
      else if length a = 4 \<and> take 3 a = [''ip'', ''route'', ''del'']
      then route_del (\<lambda>r. dst r = a ! 3) h
      else if length a = 5 \<and> take 4 a = [''ip'', ''addr'', ''flush'', ''dev'']
      then needs_link (a ! 4) h
      else if length a = 6 \<and> take 3 a = [''ip'', ''addr'', ''add''] \<and> a ! 4 = ''dev''
      then needs_link (a ! 5) h
      else if length a = 5 \<and> take 4 a = [''ip'', ''link'', ''set'', ''up'']
      then needs_link (a ! 4) h
      else if a = [''sysctl'', ''-n'', ''net.ipv4.ip_forward'']
      then ((True, (if ip_forward h then ''1'' else ''0'') @ [CHR 0x0A]), h)
      else if a = [''sysctl'', ''-w'', ''net.ipv4.ip_forward=1'']
      then ((True, []), h\<lparr>ip_forward := True\<rparr>)
      else if a = [''sysctl'', ''-w'', ''net.ipv4.ip_forward=0'']
      then ((True, []), h\<lparr>ip_forward := False\<rparr>)
      else if take 1 a = [''iptables''] \<and> ''-A'' \<in> set a
      then ((True, []), h\<lparr>rules := rules h @ [remove1 ''-A'' a]\<rparr>)
      else if take 1 a = [''iptables''] \<and> ''-D'' \<in> set a
      then (if remove1 ''-D'' a \<in> set (rules h)
            then ((True, []), h\<lparr>rules := remove1 (remove1 ''-D'' a) (rules h)\<rparr>)
            else ((False, []), h))
      else ((False, []), h))"

text \<open>
  For the statements: the default routes of a table, and those that go through the
  gateway and the interface the session has detected.
\<close>

definition is_default :: "route \<Rightarrow> bool" where
  "is_default r = (dst r = ''default'')"

definition default_via :: "conflux \<Rightarrow> route \<Rightarrow> bool" where
  "default_via c r = (dst r = ''default'' \<and> via r = gateway c \<and> dev r = iface c)"

section \<open>Sample hosts and sessions\<close>

text \<open>Concrete inputs on which the statements below are evaluated.\<close>

definition always_fail :: "unit exec" where
  "always_fail h a = ((False, []), h)"

definition always_ok :: "unit exec" where
  "always_ok h a = ((True, []), h)"

definition world0 :: "unit world" where
  "world0 = \<lparr>host = (), trace = [], logs = []\<rparr>"

definition conflux0 :: conflux where
  "conflux0 = newConflux\<lparr>gateway := ''192.168.1.1'', iface := ''eth0''\<rparr>"

definition lookup_one :: "string \<Rightarrow> ip list option" where
  "lookup_one h = (if h = ''stun.cloudflare.com'' then Some [[1, 1, 1, 1]] else None)"

definition lookup_two :: "string \<Rightarrow> ip list option" where
  "lookup_two h = (if h = ''stun.cloudflare.com'' then Some [[1, 1, 1, 1], [1, 0, 0, 1]] else None)"

definition lookup_three :: "string \<Rightarrow> ip list option" where
  "lookup_three h =
     (if h = ''stun.cloudflare.com'' then Some [[1, 1, 1, 1]]
      else if h = ''turn.cloudflare.com''
      then Some [[0x26, 0x06, 0x47, 0, 0, 0, 0, 0, 0, 0, 0, 0, 0, 0, 0x11, 0x11], [1, 0, 0, 1]]
      else if h = ''guardian.veilnet.org'' then Some [[203, 0, 113, 5]]
      else None)"

definition two_routes :: conflux where
  "two_routes = conflux0\<lparr>bypassRoutes :=
     [(''stun.cloudflare.com'', ''1.1.1.1''), (''turn.cloudflare.com'', ''1.0.0.1'')]\<rparr>"

definition two_datagrams :: "byte list list \<Rightarrow> (int \<times> bool) \<times> byte list list" where
  "two_datagrams bufs = ((2, False), [[0x45, 0x00, 0x1c], [0x60]] @ drop 2 bufs)"

definition answers :: "string \<Rightarrow> unit exec" where
  "answers out h a = ((True, out), h)"

definition route_show_sample :: string where
  "route_show_sample =
     ''10.8.0.0/24 dev tun0 scope link'' @ [CHR 0x0A] @
     ''default   via 192.168.1.1'' @ [CHR 0x09] @ ''dev  eth0 proto dhcp metric 100'' @ [CHR 0x0A] @
     ''default via 10.0.0.1 dev wlan0 metric 600'' @ [CHR 0x0A]"

definition route_show_two_defaults :: string where
  "route_show_two_defaults =
     ''default dev ppp0 scope link'' @ [CHR 0x0A] @
     ''default via 10.0.0.1 dev eth0 metric 100'' @ [CHR 0x0A]"

definition route_get_sample :: string where
  "route_get_sample =
     ''   route to: default'' @ [CHR 0x0A] @
     ''destination: default'' @ [CHR 0x0A] @
     ''    gateway: 192.168.1.1'' @ [CHR 0x0A] @
     ''  interface: en0'' @ [CHR 0x0A] @
     ''      flags: <UP,GATEWAY,DONE,STATIC,PRCLONING,GLOBAL>'' @ [CHR 0x0A]"

definition started_session :: conflux where
  "started_session = two_routes\<lparr>anchor := Some \<lparr>veilHost = ''203.0.113.9''\<rparr>,
                         device := Some \<lparr>batch = 128\<rparr>\<rparr>"

definition dhcp_host :: linux_host where
  "dhcp_host =
     \<lparr>routes = [\<lparr>dst = ''default'', via = ''192.168.1.1'', dev = ''eth0'', metric = 100\<rparr>],
      links = [''lo'', ''eth0'', ''veilnet''], ip_forward = False, rules = []\<rparr>"

definition rift_session :: conflux where
  "rift_session = conflux0\<lparr>anchor := Some \<lparr>veilHost = ''203.0.113.9''\<rparr>,
                            device := Some \<lparr>batch = 128\<rparr>\<rparr>"

definition on_host :: "'h \<Rightarrow> 'h world" where
  "on_host h = \<lparr>host = h, trace = [], logs = []\<rparr>"

definition portal_session :: conflux where
  "portal_session = rift_session\<lparr>portal := True\<rparr>"

definition lan_host :: linux_host where
  "lan_host =
     \<lparr>routes =
        [\<lparr>dst = ''192.168.1.0/24'', via = [], dev = ''eth0'', metric = 0\<rparr>,
         \<lparr>dst = ''1.1.1.1'', via = ''192.168.1.1'', dev = ''eth0'', metric = 0\<rparr>,
         \<lparr>dst = ''default'', via = ''192.168.1.1'', dev = ''eth0'', metric = 100\<rparr>,
         \<lparr>dst = ''default'', via = ''10.0.0.1'', dev = ''wlan0'', metric = 600\<rparr>],
      links = [''lo'', ''eth0'', ''wlan0'', ''veilnet''], ip_forward = False, rules = []\<rparr>"

definition twin_host :: linux_host where
  "twin_host =
     \<lparr>routes =
        [\<lparr>dst = ''default'', via = ''192.168.1.1'', dev = ''eth0'', metric = 10\<rparr>,
         \<lparr>dst = ''default'', via = ''192.168.1.1'', dev = ''eth0'', metric = 20\<rparr>],
      links = [''lo'', ''eth0'', ''veilnet''], ip_forward = False, rules = []\<rparr>"

section \<open>Properties\<close>

lemma trace_run: "trace (snd (run ex a w)) = trace w @ [Cmd a]"
  by (simp add: run_def split: prod.splits)

lemma trace_logf: "trace (logf msg w) = trace w"
  by (simp add: logf_def)

lemma must_second_issued:
  assumes "fst (fst (ex (host w) a))"
  shows "Cmd b \<in> set (trace (snd (must ex ((a, m) # (b, n) # rest) w)))"
proof -
  obtain out h' where r: "ex (host w) a = ((True, out), h')"
    using assms by (cases "ex (host w) a") auto
  define w1 where "w1 = w\<lparr>host := h', trace := trace w @ [Cmd a]\<rparr>"
  have step: "run ex a w = ((True, out), w1)"
    by (simp add: run_def r w1_def)
  obtain r2 w2 where s2: "run ex b w1 = (r2, w2)"
    by (cases "run ex b w1") auto
  have t2: "trace w2 = trace w1 @ [Cmd b]"
    using trace_run [of ex b w1] s2 by simp
  have grows: "\<And>cs v. set (trace v) \<subseteq> set (trace (snd (must ex cs v)))"
  proof -
    fix cs :: "(argv \<times> string) list" and v :: "'a world"
    show "set (trace v) \<subseteq> set (trace (snd (must ex cs v)))"
    proof (induction cs arbitrary: v)
      case Nil
      then show ?case by simp
    next
      case (Cons c cs)
      obtain a' m' where c: "c = (a', m')" by (cases c)
      obtain ok' o' v' where rv: "run ex a' v = ((ok', o'), v')"
        by (cases "run ex a' v") auto
      have tv: "trace v' = trace v @ [Cmd a']"
        using trace_run [of ex a' v] rv by simp
      show ?case
        using Cons.IH [of v'] tv by (auto simp: c rv trace_logf)
    qed
  qed
  have "Cmd b \<in> set (trace (snd (must ex ((b, n) # rest) w1)))"
    using grows [of w2 rest] t2 s2
    by (cases r2) (auto simp: trace_logf)
  then show ?thesis by (simp add: step)
qed

text \<open>
  C10. On the macOS variant every prefix length other than "8", "16", "24" and "32" is
  converted to the mask 255.255.255.0, and that mask is what \<^verbatim>\<open>ConfigHost\<close> passes to
  \<^verbatim>\<open>ifconfig\<close> for the virtual interface once the interface has been brought up; so a
  negotiated /20 or /30 is configured as a /24.
\<close>

theorem convertNetmask_default_24:
  assumes "netmask \<notin> {''8'', ''16'', ''24'', ''32''}"
    and "anchor c = Some a"
    and "\<forall>h. fst (fst (ex h [''ifconfig'', ''veilnet'', ''up'']))"
  shows "convertNetmask netmask = ''255.255.255.0'' \<and>
         Cmd [''ifconfig'', ''veilnet'', ''inet'', ip, ''netmask'', ''255.255.255.0'']
           \<in> set (trace (snd (ConfigHost_darwin ex c ip netmask w)))"
proof -
  have m: "convertNetmask netmask = ''255.255.255.0''"
    using assms(1) by (simp add: convertNetmask_def)
  have "Cmd [''ifconfig'', ''veilnet'', ''inet'', ip, ''netmask'', convertNetmask netmask]
          \<in> set (trace (snd (ConfigHost_darwin ex c ip netmask w)))"
    unfolding ConfigHost_darwin_def darwin_apply_def GetVeilHost_def
    using assms(2,3) by (simp add: must_second_issued del: must.simps)
  with m show ?thesis by simp
qed

theorem convertNetmask_default_24_witness:
  "''20'' \<notin> {''8'', ''16'', ''24'', ''32''} \<and>
   convertNetmask ''20'' = ''255.255.255.0'' \<and>
   Cmd [''ifconfig'', ''veilnet'', ''inet'', ''10.128.0.7'', ''netmask'', ''255.255.255.0'']
     \<in> set (trace (snd (ConfigHost_darwin (\<lambda>h a. ((True, []), h))
          (newConflux\<lparr>anchor := Some \<lparr>veilHost = ''203.0.113.9''\<rparr>,
                       gateway := ''192.168.1.1'', iface := ''en0''\<rparr>)
          ''10.128.0.7'' ''20'' \<lparr>host = (), trace = [], logs = []\<rparr>)))"
  using convertNetmask_default_24 [of "''20''"
      "newConflux\<lparr>anchor := Some \<lparr>veilHost = ''203.0.113.9''\<rparr>,
                   gateway := ''192.168.1.1'', iface := ''en0''\<rparr>"
      "\<lparr>veilHost = ''203.0.113.9''\<rparr>" "\<lambda>h a. ((True, []), h)"
      "''10.128.0.7''" "\<lparr>host = (), trace = [], logs = []\<rparr>"]
  by (simp add: newConflux_def)

subsection \<open>Bypass routes\<close>

lemmas fixture_defs = lookup_one_def lookup_two_def conflux0_def newConflux_def world0_def
  always_ok_def always_fail_def

lemmas bypass_eval = AddBypassRoutes_def RemoveBypassRoutes_def bypass_hosts_def To4_def
  ip4_String_def itoa.simps digit_def run_def logf_def bypass_add_cmd_def bypass_del_cmd_def

lemma host_etc_run: "logs (snd (run ex a w)) = logs w"
  by (simp add: run_def split: prod.splits)

lemma add_ips_shape:
  "add_ips ex p h as (c, w) = (c', w') \<Longrightarrow>
   bypassRoutes c' = foldl (\<lambda>m d. Store h d m) (bypassRoutes c) (ipv4s as) \<and>
   trace w' = trace w @ map (\<lambda>d. Cmd (bypass_add_cmd p (gateway c) (iface c) d)) (ipv4s as) \<and>
   anchor c' = anchor c \<and> device c' = device c \<and> portal c' = portal c \<and>
   gateway c' = gateway c \<and> iface c' = iface c \<and>
   ipForwardEnabled c' = ipForwardEnabled c \<and> once c' = once c"
proof (induction as arbitrary: c w)
  case Nil
  then show ?case by (simp add: ipv4s_def List.map_filter_simps)
next
  case (Cons a as)
  show ?case
  proof (cases "To4 a")
    case None
    then show ?thesis using Cons.IH [of c w] Cons.prems
      by (simp add: ipv4s_def List.map_filter_simps)
  next
    case (Some ip4)
    let ?c1 = "c\<lparr>bypassRoutes := Store h (ip4_String ip4) (bypassRoutes c)\<rparr>"
    let ?w1 = "snd (run ex (bypass_add_cmd p (gateway c) (iface c) (ip4_String ip4)) w)"
    have "add_ips ex p h as (?c1, ?w1) = (c', w')"
      using Cons.prems Some by simp
    from Cons.IH [OF this] show ?thesis
      using Some by (simp add: ipv4s_def List.map_filter_simps trace_run)
  qed
qed

lemma add_hosts_shape:
  "add_hosts ex p lk hs (c, w) = (c', w') \<Longrightarrow>
   bypassRoutes c' = foldl (\<lambda>m (h, d). Store h d m) (bypassRoutes c) (resolved lk hs) \<and>
   trace w' = trace w @ map (\<lambda>(h, d). Cmd (bypass_add_cmd p (gateway c) (iface c) d)) (resolved lk hs) \<and>
   anchor c' = anchor c \<and> device c' = device c \<and> portal c' = portal c \<and>
   gateway c' = gateway c \<and> iface c' = iface c \<and>
   ipForwardEnabled c' = ipForwardEnabled c \<and> once c' = once c"
proof (induction hs arbitrary: c w)
  case Nil
  then show ?case by (simp add: resolved_def)
next
  case (Cons h hs)
  show ?case
  proof (cases "lk h")
    case None
    then show ?thesis using Cons.IH [of c "logf (''Failed to resolve '' @ h) w"] Cons.prems
      by (simp add: resolved_def trace_logf)
  next
    case (Some as)
    obtain c1 w1 where s1: "add_ips ex p h as (c, w) = (c1, w1)"
      by (cases "add_ips ex p h as (c, w)") auto
    have r: "add_hosts ex p lk hs (c1, w1) = (c', w')"
      using Cons.prems Some s1 by simp
    have f: "foldl (\<lambda>m (h, d). Store h d m) m0 (map (Pair h) ds) = foldl (\<lambda>m d. Store h d m) m0 ds" for m0 ds
      by (induction ds arbitrary: m0) auto
    show ?thesis
      using Cons.IH [OF r] add_ips_shape [OF s1] Some
      by (simp add: resolved_def f comp_def)
  qed
qed

lemma Store_fresh: "k \<notin> fst ` set m \<Longrightarrow> Store k v m = m @ [(k, v)]"
  by (induction m) auto

lemma foldl_Store_distinct:
  "distinct (map fst (m @ R)) \<Longrightarrow> foldl (\<lambda>m (h, d). Store h d m) m R = m @ R"
proof (induction R arbitrary: m)
  case Nil
  then show ?case by simp
next
  case (Cons r R)
  obtain k v where r: "r = (k, v)" by (cases r)
  have "k \<notin> fst ` set m" using Cons.prems r by auto
  then have s: "Store k v m = m @ [(k, v)]" by (rule Store_fresh)
  have "distinct (map fst ((m @ [(k, v)]) @ R))" using Cons.prems r by simp
  from Cons.IH [OF this] show ?case by (simp add: r s)
qed

lemma range_del_prefix:
  "\<exists>n. trace (range_del ex p gw es w) =
         trace w @ map (\<lambda>(k, v). Cmd (bypass_del_cmd p gw v)) (take n es)"
proof (induction es arbitrary: w)
  case Nil
  then show ?case by simp
next
  case (Cons e es)
  obtain k v where e: "e = (k, v)" by (cases e)
  obtain okay out w1 where r: "run ex (bypass_del_cmd p gw v) w = ((okay, out), w1)"
    by (cases "run ex (bypass_del_cmd p gw v) w") auto
  have t1: "trace w1 = trace w @ [Cmd (bypass_del_cmd p gw v)]"
    using trace_run [of ex "bypass_del_cmd p gw v" w] r by simp
  show ?case
  proof (cases okay)
    case True
    from Cons.IH [of w1] obtain n where
      "trace (range_del ex p gw es w1) = trace w1 @ map (\<lambda>(k, v). Cmd (bypass_del_cmd p gw v)) (take n es)"
      by blast
    then have "trace (range_del ex p gw (e # es) w) =
         trace w @ map (\<lambda>(k, v). Cmd (bypass_del_cmd p gw v)) (take (Suc n) (e # es))"
      using True r t1 e by simp
    then show ?thesis by blast
  next
    case False
    have "trace (range_del ex p gw (e # es) w) =
         trace w @ map (\<lambda>(k, v). Cmd (bypass_del_cmd p gw v)) (take (Suc 0) (e # es))"
      using False r t1 e by (simp add: trace_logf)
    then show ?thesis by blast
  qed
qed

lemma range_del_ok:
  "deletes_ok ex p gw es w \<Longrightarrow>
   trace (range_del ex p gw es w) = trace w @ map (\<lambda>(k, v). Cmd (bypass_del_cmd p gw v)) es \<and>
   logs (range_del ex p gw es w) = logs w"
proof (induction es arbitrary: w)
  case Nil
  then show ?case by simp
next
  case (Cons e es)
  obtain k v where e: "e = (k, v)" by (cases e)
  obtain okay out w1 where r: "run ex (bypass_del_cmd p gw v) w = ((okay, out), w1)"
    by (cases "run ex (bypass_del_cmd p gw v) w") auto
  have t1: "trace w1 = trace w @ [Cmd (bypass_del_cmd p gw v)]" "logs w1 = logs w"
    using trace_run [of ex "bypass_del_cmd p gw v" w] host_etc_run [of ex "bypass_del_cmd p gw v" w] r by simp_all
  have ok: "okay" "deletes_ok ex p gw es w1" using Cons.prems e r by simp_all
  show ?case using Cons.IH [OF ok(2)] ok(1) r t1 e by simp
qed

lemma range_del_append:
  "deletes_ok ex p gw pre w \<Longrightarrow>
   range_del ex p gw (pre @ es) w = range_del ex p gw es (range_del ex p gw pre w)"
proof (induction pre arbitrary: w)
  case Nil
  then show ?case by simp
next
  case (Cons e pre)
  obtain k v where e: "e = (k, v)" by (cases e)
  obtain okay out w1 where r: "run ex (bypass_del_cmd p gw v) w = ((okay, out), w1)"
    by (cases "run ex (bypass_del_cmd p gw v) w") auto
  have ok: "okay" "deletes_ok ex p gw pre w1" using Cons.prems e r by simp_all
  show ?case using Cons.IH [OF ok(2)] ok(1) r e by simp
qed

lemma resolved_keys: "fst ` set (resolved lk hs) \<subseteq> set hs"
  by (induction hs) (auto simp: resolved_def split: option.splits)

lemma resolved_distinct:
  "\<forall>h\<in>set hs. \<forall>as. lk h = Some as \<longrightarrow> length (ipv4s as) \<le> 1 \<Longrightarrow>
   distinct hs \<Longrightarrow> distinct (map fst (resolved lk hs))"
proof (induction hs)
  case Nil
  then show ?case by (simp add: resolved_def)
next
  case (Cons h hs)
  have r: "resolved lk (h # hs) =
      (case lk h of None \<Rightarrow> [] | Some as \<Rightarrow> map (Pair h) (ipv4s as)) @ resolved lk hs"
    by (simp add: resolved_def)
  have tl: "distinct (map fst (resolved lk hs))" "h \<notin> fst ` set (resolved lk hs)"
    using Cons resolved_keys [of lk hs] by auto
  show ?case
  proof (cases "lk h")
    case None
    then show ?thesis using tl r by simp
  next
    case (Some as)
    then have "length (ipv4s as) \<le> 1" using Cons.prems(1) by simp
    then consider "ipv4s as = []" | d where "ipv4s as = [d]"
      by (cases "ipv4s as") (auto simp: le_Suc_eq)
    then show ?thesis
      using tl r Some by cases auto
  qed
qed

lemma bypass_hosts_distinct: "distinct (bypass_hosts p)"
  by (cases p) (simp_all add: bypass_hosts_def)

text \<open>
  C1 (amended). When every hostname of the fixed list resolves to at most one IPv4 address
  and no delete command of the teardown fails, \<^verbatim>\<open>AddBypassRoutes\<close> followed by
  \<^verbatim>\<open>RemoveBypassRoutes\<close> starts one install command per resolved address and one
  delete command per installed address, with the same address string, whatever the order
  in which the table is ranged over. The table is not emptied: after the teardown it still
  holds the entries that were recorded.
\<close>

theorem bypass_install_then_teardown:
  assumes single: "\<forall>h\<in>set (bypass_hosts p). \<forall>as. lk h = Some as \<longrightarrow> length (ipv4s as) \<le> 1"
    and fresh: "bypassRoutes c = []"
    and perm: "mset (ord (resolved lk (bypass_hosts p))) = mset (resolved lk (bypass_hosts p))"
    and dels: "deletes_ok ex p (gateway c) (ord (resolved lk (bypass_hosts p)))
                 (snd (AddBypassRoutes ex p lk c w))"
  shows "case AddBypassRoutes ex p lk c w of
           (c1, w1) \<Rightarrow>
             (case RemoveBypassRoutes ex p ord c1 w1 of
                (c2, w2) \<Rightarrow>
                  trace w1 = trace w @
                    map (\<lambda>(h, d). Cmd (bypass_add_cmd p (gateway c) (iface c) d))
                      (resolved lk (bypass_hosts p)) \<and>
                  (\<exists>D. mset D = mset (resolved lk (bypass_hosts p)) \<and>
                       trace w2 = trace w1 @
                         map (\<lambda>(h, d). Cmd (bypass_del_cmd p (gateway c) d)) D) \<and>
                  bypassRoutes c2 = resolved lk (bypass_hosts p))"
proof -
  let ?R = "resolved lk (bypass_hosts p)"
  obtain c1 w1 where a: "AddBypassRoutes ex p lk c w = (c1, w1)"
    by (cases "AddBypassRoutes ex p lk c w") auto
  then have ah: "add_hosts ex p lk (bypass_hosts p) (c, w) = (c1, w1)"
    by (simp add: AddBypassRoutes_def)
  note sh = add_hosts_shape [OF ah]
  have "distinct (map fst ([] @ ?R))"
    using resolved_distinct [OF single bypass_hosts_distinct] by simp
  from foldl_Store_distinct [OF this] have tbl: "bypassRoutes c1 = ?R"
    using sh fresh by simp
  have gw: "gateway c1 = gateway c" using sh by simp
  have ok: "deletes_ok ex p (gateway c) (ord ?R) w1"
    using dels a by simp
  have tr: "trace (range_del ex p (gateway c) (ord ?R) w1) =
        trace w1 @ map (\<lambda>(k, v). Cmd (bypass_del_cmd p (gateway c) v)) (ord ?R)"
    using range_del_ok [OF ok] by simp
  with perm have ex: "\<exists>D. mset D = mset ?R \<and>
       trace (range_del ex p (gateway c) (ord ?R) w1) =
         trace w1 @ map (\<lambda>(h, d). Cmd (bypass_del_cmd p (gateway c) d)) D"
    by blast
  show ?thesis
    using a sh ex by (simp add: RemoveBypassRoutes_def tbl gw)
qed

text \<open>
  The claim as stated fails: a hostname with two addresses gets two routes installed and
  only the second one deleted, and the table is not empty after the teardown.
\<close>

theorem bypass_install_then_teardown_counterexample:
  "trace (snd (AddBypassRoutes always_ok Linux lookup_two conflux0 world0)) =
     [Cmd [''ip'', ''route'', ''add'', ''1.1.1.1'', ''via'', ''192.168.1.1'', ''dev'', ''eth0''],
      Cmd [''ip'', ''route'', ''add'', ''1.0.0.1'', ''via'', ''192.168.1.1'', ''dev'', ''eth0'']] \<and>
   (case AddBypassRoutes always_ok Linux lookup_two conflux0 world0 of
      (c1, w1) \<Rightarrow>
        (case RemoveBypassRoutes always_ok Linux id c1 w1 of
           (c2, w2) \<Rightarrow>
             Cmd [''ip'', ''route'', ''del'', ''1.1.1.1''] \<notin> set (trace w2) \<and>
             bypassRoutes c2 = [(''stun.cloudflare.com'', ''1.0.0.1'')]))"
  by (simp add: AddBypassRoutes_def RemoveBypassRoutes_def bypass_hosts_def lookup_two_def
      conflux0_def newConflux_def world0_def always_ok_def To4_def ip4_String_def itoa.simps
      digit_def run_def logf_def bypass_add_cmd_def bypass_del_cmd_def)

text \<open>
  The amended statement on a Linux host, with three hostnames that have one IPv4 address
  each (one of them next to an IPv6 address) and the table ranged over from its end: the
  three routes are added to the host, the three deletes are started in the reverse order,
  each succeeds on the host, and the routes of the host are as before.
\<close>

theorem bypass_install_then_teardown_witness:
  "resolved lookup_three (bypass_hosts Linux) =
     [(''stun.cloudflare.com'', ''1.1.1.1''), (''turn.cloudflare.com'', ''1.0.0.1''),
      (''guardian.veilnet.org'', ''203.0.113.5'')] \<and>
   (case AddBypassRoutes linux_exec Linux lookup_three conflux0 (on_host dhcp_host) of
      (c1, w1) \<Rightarrow>
        (case RemoveBypassRoutes linux_exec Linux rev c1 w1 of
           (c2, w2) \<Rightarrow>
             trace w1 = trace (on_host dhcp_host) @
               map (\<lambda>(h, d). Cmd (bypass_add_cmd Linux (gateway conflux0) (iface conflux0) d))
                 (resolved lookup_three (bypass_hosts Linux)) \<and>
             (\<exists>D. mset D = mset (resolved lookup_three (bypass_hosts Linux)) \<and>
                  trace w2 = trace w1 @
                    map (\<lambda>(h, d). Cmd (bypass_del_cmd Linux (gateway conflux0) d)) D) \<and>
             bypassRoutes c2 = resolved lookup_three (bypass_hosts Linux))) \<and>
   trace (snd (RemoveBypassRoutes linux_exec Linux rev
       (fst (AddBypassRoutes linux_exec Linux lookup_three conflux0 (on_host dhcp_host)))
       (snd (AddBypassRoutes linux_exec Linux lookup_three conflux0 (on_host dhcp_host))))) =
     [Cmd [''ip'', ''route'', ''add'', ''1.1.1.1'', ''via'', ''192.168.1.1'', ''dev'', ''eth0''],
      Cmd [''ip'', ''route'', ''add'', ''1.0.0.1'', ''via'', ''192.168.1.1'', ''dev'', ''eth0''],
      Cmd [''ip'', ''route'', ''add'', ''203.0.113.5'', ''via'', ''192.168.1.1'', ''dev'', ''eth0''],
      Cmd [''ip'', ''route'', ''del'', ''203.0.113.5''],
      Cmd [''ip'', ''route'', ''del'', ''1.0.0.1''],
      Cmd [''ip'', ''route'', ''del'', ''1.1.1.1'']]"
proof -
  have r: "resolved lookup_three (bypass_hosts Linux) =
     [(''stun.cloudflare.com'', ''1.1.1.1''), (''turn.cloudflare.com'', ''1.0.0.1''),
      (''guardian.veilnet.org'', ''203.0.113.5'')]"
    by (simp add: resolved_def bypass_hosts_def lookup_three_def ipv4s_def To4_def
        List.map_filter_simps ip4_String_def itoa.simps digit_def)
  have h1: "\<forall>h\<in>set (bypass_hosts Linux). \<forall>as. lookup_three h = Some as \<longrightarrow> length (ipv4s as) \<le> 1"
    by (simp add: bypass_hosts_def lookup_three_def ipv4s_def To4_def List.map_filter_simps)
  have h2: "bypassRoutes conflux0 = []"
    by (simp add: conflux0_def newConflux_def)
  have h3: "mset (rev (resolved lookup_three (bypass_hosts Linux))) =
      mset (resolved lookup_three (bypass_hosts Linux))"
    by simp
  have h4: "deletes_ok linux_exec Linux (gateway conflux0)
      (rev (resolved lookup_three (bypass_hosts Linux)))
      (snd (AddBypassRoutes linux_exec Linux lookup_three conflux0 (on_host dhcp_host)))"
    unfolding r
    by (simp add: bypass_eval lookup_three_def conflux0_def newConflux_def on_host_def
        dhcp_host_def linux_exec_def route_add_def route_del_def)
  have t: "trace (snd (RemoveBypassRoutes linux_exec Linux rev
       (fst (AddBypassRoutes linux_exec Linux lookup_three conflux0 (on_host dhcp_host)))
       (snd (AddBypassRoutes linux_exec Linux lookup_three conflux0 (on_host dhcp_host))))) =
     [Cmd [''ip'', ''route'', ''add'', ''1.1.1.1'', ''via'', ''192.168.1.1'', ''dev'', ''eth0''],
      Cmd [''ip'', ''route'', ''add'', ''1.0.0.1'', ''via'', ''192.168.1.1'', ''dev'', ''eth0''],
      Cmd [''ip'', ''route'', ''add'', ''203.0.113.5'', ''via'', ''192.168.1.1'', ''dev'', ''eth0''],
      Cmd [''ip'', ''route'', ''del'', ''203.0.113.5''],
      Cmd [''ip'', ''route'', ''del'', ''1.0.0.1''],
      Cmd [''ip'', ''route'', ''del'', ''1.1.1.1'']]"
    by (simp add: bypass_eval lookup_three_def conflux0_def newConflux_def on_host_def
        dhcp_host_def linux_exec_def route_add_def route_del_def)
  show ?thesis
    using bypass_install_then_teardown
      [where p = Linux and lk = lookup_three and c = conflux0 and ord = rev
         and ex = linux_exec and w = "on_host dhcp_host", OF h1 h2 h3 h4] r t
    by simp
qed

text \<open>
  C3 (amended). \<^verbatim>\<open>AddBypassRoutes\<close> discards the result of every install command:
  it starts one install command for every resolved IPv4 address and records every one of
  them under its hostname, whatever the commands return, so the table does not depend on
  which installs succeeded. \<^verbatim>\<open>RemoveBypassRoutes\<close> starts delete commands for
  recorded addresses only, in the order of the range, for some initial part of it.
\<close>

theorem AddBypassRoutes_records_regardless:
  "bypassRoutes (fst (AddBypassRoutes ex p lk c w)) =
     foldl (\<lambda>m (h, d). Store h d m) (bypassRoutes c) (resolved lk (bypass_hosts p)) \<and>
   trace (snd (AddBypassRoutes ex p lk c w)) =
     trace w @ map (\<lambda>(h, d). Cmd (bypass_add_cmd p (gateway c) (iface c) d))
       (resolved lk (bypass_hosts p)) \<and>
   (\<exists>n. trace (snd (RemoveBypassRoutes ex p ord c w)) =
      trace w @ map (\<lambda>(h, d). Cmd (bypass_del_cmd p (gateway c) d)) (take n (ord (bypassRoutes c))))"
proof -
  obtain c1 w1 where a: "add_hosts ex p lk (bypass_hosts p) (c, w) = (c1, w1)"
    by (cases "add_hosts ex p lk (bypass_hosts p) (c, w)") auto
  note sh = add_hosts_shape [OF a]
  show ?thesis
    using sh a range_del_prefix [of ex p "gateway c" "ord (bypassRoutes c)" w]
    by (simp add: AddBypassRoutes_def RemoveBypassRoutes_def)
qed

text \<open>
  The claim as stated fails: the install command of an address fails, and the address is
  recorded and gets its delete command all the same.
\<close>

theorem AddBypassRoutes_records_regardless_counterexample:
  "\<not> fst (fst (always_fail ()
       [''ip'', ''route'', ''add'', ''1.1.1.1'', ''via'', ''192.168.1.1'', ''dev'', ''eth0''])) \<and>
   (case AddBypassRoutes always_fail Linux lookup_one conflux0 world0 of
      (c1, w1) \<Rightarrow>
        trace w1 =
          [Cmd [''ip'', ''route'', ''add'', ''1.1.1.1'', ''via'', ''192.168.1.1'', ''dev'', ''eth0'']] \<and>
        bypassRoutes c1 = [(''stun.cloudflare.com'', ''1.1.1.1'')] \<and>
        Cmd [''ip'', ''route'', ''del'', ''1.1.1.1'']
          \<in> set (trace (snd (RemoveBypassRoutes always_fail Linux id c1 w1))))"
  by (simp add: bypass_eval fixture_defs)

text \<open>
  C2 (amended). When a delete command fails during \<^verbatim>\<open>RemoveBypassRoutes\<close>, the
  failure is logged with the hostname and the range stops there: the commands started are
  the deletes of the entries visited before it and the failing delete itself, and no
  command is started for the entries that come after it.
\<close>

theorem RemoveBypassRoutes_stops_at_first_failure:
  assumes "ord (bypassRoutes c) = pre @ (k, v) # post"
    and "deletes_ok ex p (gateway c) pre w"
    and "\<not> fst (fst (ex (host (range_del ex p (gateway c) pre w)) (bypass_del_cmd p (gateway c) v)))"
  shows "trace (snd (RemoveBypassRoutes ex p ord c w)) =
           trace w @ map (\<lambda>(h, d). Cmd (bypass_del_cmd p (gateway c) d)) (pre @ [(k, v)]) \<and>
         logs (snd (RemoveBypassRoutes ex p ord c w)) =
           logs w @ [''Failed to clear bypass route for '' @ k]"
proof -
  let ?w1 = "range_del ex p (gateway c) pre w"
  have split: "range_del ex p (gateway c) (pre @ (k, v) # post) w =
      range_del ex p (gateway c) ((k, v) # post) ?w1"
    using range_del_append [OF assms(2)] .
  have pre: "trace ?w1 = trace w @ map (\<lambda>(h, d). Cmd (bypass_del_cmd p (gateway c) d)) pre"
      "logs ?w1 = logs w"
    using range_del_ok [OF assms(2)] by simp_all
  obtain okay out w2 where r: "run ex (bypass_del_cmd p (gateway c) v) ?w1 = ((okay, out), w2)"
    by (cases "run ex (bypass_del_cmd p (gateway c) v) ?w1") auto
  have no: "\<not> okay"
    using assms(3) r by (auto simp: run_def split: prod.splits)
  have t2: "trace w2 = trace ?w1 @ [Cmd (bypass_del_cmd p (gateway c) v)]" "logs w2 = logs ?w1"
    using trace_run [of ex "bypass_del_cmd p (gateway c) v" ?w1]
      host_etc_run [of ex "bypass_del_cmd p (gateway c) v" ?w1] r by simp_all
  have "range_del ex p (gateway c) ((k, v) # post) ?w1 =
      logf (''Failed to clear bypass route for '' @ k) w2"
    using r no by simp
  then show ?thesis
    using split pre t2 assms(1) by (simp add: RemoveBypassRoutes_def logf_def)
qed

theorem RemoveBypassRoutes_stops_at_first_failure_witness:
  "trace (snd (RemoveBypassRoutes always_fail Linux id two_routes world0)) =
     [Cmd [''ip'', ''route'', ''del'', ''1.1.1.1'']] \<and>
   logs (snd (RemoveBypassRoutes always_fail Linux id two_routes world0)) =
     [''Failed to clear bypass route for stun.cloudflare.com'']"
proof -
  have h1: "id (bypassRoutes two_routes) =
      [] @ (''stun.cloudflare.com'', ''1.1.1.1'') # [(''turn.cloudflare.com'', ''1.0.0.1'')]"
    by (simp add: two_routes_def)
  have h2: "deletes_ok always_fail Linux (gateway two_routes) [] world0"
    by simp
  have h3: "\<not> fst (fst (always_fail (host (range_del always_fail Linux (gateway two_routes) [] world0))
      (bypass_del_cmd Linux (gateway two_routes) ''1.1.1.1'')))"
    by (simp add: always_fail_def)
  show ?thesis
    using RemoveBypassRoutes_stops_at_first_failure
      [where ord = id and c = two_routes and pre = "[]" and k = "''stun.cloudflare.com''"
         and v = "''1.1.1.1''" and post = "[(''turn.cloudflare.com'', ''1.0.0.1'')]"
         and ex = always_fail and p = Linux and w = world0, OF h1 h2 h3]
    by (simp add: bypass_del_cmd_def world0_def)
qed

text \<open>
  The claim as stated fails: with two recorded entries and a failing delete, the other
  entry gets no delete command, whichever of the two is visited first.
\<close>

theorem RemoveBypassRoutes_stops_at_first_failure_counterexample:
  "Cmd [''ip'', ''route'', ''del'', ''1.0.0.1'']
     \<notin> set (trace (snd (RemoveBypassRoutes always_fail Linux id two_routes world0))) \<and>
   Cmd [''ip'', ''route'', ''del'', ''1.1.1.1'']
     \<notin> set (trace (snd (RemoveBypassRoutes always_fail Linux rev two_routes world0)))"
  by (simp add: bypass_eval fixture_defs two_routes_def)

subsection \<open>Packet relay and process surface\<close>

lemma frame_from_closed:
  "i \<le> nat n \<Longrightarrow> nat n \<le> length bufs \<Longrightarrow> 0 \<le> n \<Longrightarrow>
   frame_from i n bufs =
     Inr (take i bufs @ map (\<lambda>d. replicate 16 0 @ d) (take (nat n - i) (drop i bufs)) @
          drop (nat n) bufs)"
proof (induction i n bufs rule: frame_from.induct)
  case (1 i n bufs)
  show ?case
  proof (cases "int i < n")
    case False
    then have "nat n = i" using "1.prems" by linarith
    then show ?thesis using False by (simp add: frame_from.simps [of i n bufs])
  next
    case True
    then have lt: "i < nat n" "i < length bufs" using "1.prems" by linarith+
    let ?b = "bufs[i := replicate 16 0 @ bufs ! i]"
    have ih: "frame_from (Suc i) n ?b =
        Inr (take (Suc i) ?b @
             map (\<lambda>d. replicate 16 0 @ d) (take (nat n - Suc i) (drop (Suc i) ?b)) @
             drop (nat n) ?b)"
      using "1.IH" [OF True lt(2)] lt "1.prems" by simp
    have a: "take (Suc i) ?b = take i bufs @ [replicate 16 0 @ bufs ! i]"
      using lt by (simp add: take_Suc_conv_app_nth)
    have b: "drop (Suc i) ?b = drop (Suc i) bufs" "drop (nat n) ?b = drop (nat n) bufs"
      using lt by simp_all
    have c: "take (nat n - i) (drop i bufs) = bufs ! i # take (nat n - Suc i) (drop (Suc i) bufs)"
      using lt by (metis Cons_nth_drop_Suc Suc_diff_Suc take_Suc_Cons)
    show ?thesis
      using True lt ih by (simp add: frame_from.simps [of i n bufs] a b c)
  qed
qed

text \<open>
  C5. When the read of the tunnel endpoint reports \<open>n\<close> datagrams without error, the
  batch handed to the write call of the virtual interface is, for each of the \<open>n\<close>
  datagrams in order, sixteen zero bytes followed by the bytes of the datagram unchanged,
  and the write is invoked with offset 16; this is the write the loop records for that
  pass. (On macOS no write is made for an empty batch.)
\<close>

theorem ingress_step_frames:
  assumes "rd bufs = ((n, False), ds)" and "0 \<le> n" and "nat n \<le> length ds"
  shows "ingress_step p rd bufs =
           Inr (if p = Darwin \<and> n = 0 then None
                else Some (DeviceWrite (map (\<lambda>d. replicate 16 0 @ d) (take (nat n) ds)) 16),
                map (\<lambda>d. replicate 16 0 @ d) (take (nat n) ds) @ drop (nat n) ds) \<and>
         fst (ingress p (rd # rds) bufs) =
           (if p = Darwin \<and> n = 0 then []
            else [DeviceWrite (map (\<lambda>d. replicate 16 0 @ d) (take (nat n) ds)) 16]) @
           fst (ingress p rds (map (\<lambda>d. replicate 16 0 @ d) (take (nat n) ds) @ drop (nat n) ds))"
proof -
  have s: "ingress_step p rd bufs =
           Inr (if p = Darwin \<and> n = 0 then None
                else Some (DeviceWrite (map (\<lambda>d. replicate 16 0 @ d) (take (nat n) ds)) 16),
                map (\<lambda>d. replicate 16 0 @ d) (take (nat n) ds) @ drop (nat n) ds)"
    using assms frame_from_closed [of 0 n ds]
    by (auto simp: ingress_step_def slice_to_def)
  show ?thesis
    unfolding ingress.simps s by (simp split: prod.splits)
qed

theorem ingress_step_frames_witness:
  "ingress_step Linux two_datagrams (replicate 4 []) =
     Inr (Some (DeviceWrite
            [[0, 0, 0, 0, 0, 0, 0, 0, 0, 0, 0, 0, 0, 0, 0, 0, 0x45, 0x00, 0x1c],
             [0, 0, 0, 0, 0, 0, 0, 0, 0, 0, 0, 0, 0, 0, 0, 0, 0x60]] 16),
          [[0, 0, 0, 0, 0, 0, 0, 0, 0, 0, 0, 0, 0, 0, 0, 0, 0x45, 0x00, 0x1c],
           [0, 0, 0, 0, 0, 0, 0, 0, 0, 0, 0, 0, 0, 0, 0, 0, 0x60], [], []])"
proof -
  have h1: "two_datagrams (replicate 4 []) = ((2, False), [[0x45, 0x00, 0x1c], [0x60], [], []])"
    by (simp add: two_datagrams_def numeral_eq_Suc)
  have h2: "(0::int) \<le> 2" by simp
  have h3: "nat 2 \<le> length [[0x45, 0x00, 0x1c], [0x60], [], [] :: byte list]" by simp
  have r16: "replicate 16 (0::byte) = [0, 0, 0, 0, 0, 0, 0, 0, 0, 0, 0, 0, 0, 0, 0, 0]"
    by (simp add: numeral_eq_Suc)
  show ?thesis
    using conjunct1 [OF ingress_step_frames [where rd = two_datagrams and bufs = "replicate 4 []"
          and n = 2 and ds = "[[0x45, 0x00, 0x1c], [0x60], [], []]" and p = Linux and rds = "[]",
          OF h1 h2 h3]]
    by (simp add: r16 numeral_eq_Suc)
qed

text \<open>
  C9 (amended). The exit code is 0 exactly when the guardian URL and the token are set
  and \<^verbatim>\<open>Start\<close> succeeded, whether the shutdown completed or timed out: on a timeout
  \<^verbatim>\<open>Run\<close> logs a warning and returns nil like on a graceful stop.
\<close>

theorem exit_code_ignores_timeout:
  "(main_exit (fst (Up_Run guardian token started sd)) = 0) =
     (guardian \<noteq> [] \<and> token \<noteq> [] \<and> started = None)"
  by (cases sd; cases started) (simp_all add: Up_Run_def main_exit_def)

text \<open>The claim as stated fails: a shutdown that times out ends with exit code 0.\<close>

theorem exit_code_ignores_timeout_counterexample:
  "Up_Run ''https://guardian.veilnet.org'' ''secret'' None TimedOut =
     (None, [''Received shutdown signal, shutting down...'', ''Shutdown timeout, forcing exit'']) \<and>
   main_exit (fst (Up_Run ''https://guardian.veilnet.org'' ''secret'' None TimedOut)) = 0"
  by (simp add: Up_Run_def main_exit_def)

subsection \<open>Gateway detection\<close>

lemma scan_lines_first:
  "\<forall>x\<in>set pre. \<not> HasPrefix x ''default'' \<Longrightarrow> HasPrefix l ''default'' \<Longrightarrow>
   scan_lines (pre @ l # post) = scan_fields (Fields l) ([], [])"
  by (induction pre) auto

lemma scan_lines_none:
  "\<forall>x\<in>set ls. \<not> HasPrefix x ''default'' \<Longrightarrow> scan_lines ls = ([], [])"
  by (induction ls) auto

lemma first_default_split:
  "(\<forall>x\<in>set ls. \<not> HasPrefix x ''default'') \<or>
   (\<exists>pre l post. ls = pre @ l # post \<and> (\<forall>x\<in>set pre. \<not> HasPrefix x ''default'') \<and>
      HasPrefix l ''default'')"
proof (cases "\<forall>x\<in>set ls. \<not> HasPrefix x ''default''")
  case True
  then show ?thesis by blast
next
  case False
  then have "\<exists>x\<in>set ls. HasPrefix x ''default''" by blast
  from split_list_first_prop [OF this] show ?thesis by blast
qed

lemma first_default_unique:
  assumes "pre @ l # post = pre' @ l' # post'"
    and "\<forall>x\<in>set pre. \<not> HasPrefix x ''default''" and "HasPrefix l ''default''"
    and "\<forall>x\<in>set pre'. \<not> HasPrefix x ''default''" and "HasPrefix l' ''default''"
  shows "pre' = pre \<and> l' = l \<and> post' = post"
proof -
  have "pre = pre'"
  proof (rule ccontr)
    assume ne: "pre \<noteq> pre'"
    from assms(1) [unfolded append_eq_append_conv2] obtain us where
      "(pre = pre' @ us \<and> us @ l # post = l' # post') \<or>
       (pre @ us = pre' \<and> l # post = us @ l' # post')" by blast
    then show False
    proof
      assume a: "pre = pre' @ us \<and> us @ l # post = l' # post'"
      then have "us \<noteq> []" using ne by auto
      then have "l' \<in> set pre" using a by (cases us) auto
      then show False using assms(2,5) by blast
    next
      assume a: "pre @ us = pre' \<and> l # post = us @ l' # post'"
      then have "us \<noteq> []" using ne by auto
      then have "l \<in> set pre'" using a by (cases us) auto
      then show False using assms(3,4) by blast
    qed
  qed
  then show ?thesis using assms(1) by simp
qed

lemma DetectHostGateway_linux_iff:
  assumes "ex (host w) [''ip'', ''route'', ''show'', ''default''] = ((okay, out), h')"
  shows "(DetectHostGateway_linux ex c w = (None, c', w')) =
         (okay \<and>
          w' = w\<lparr>host := h', trace := trace w @ [Cmd [''ip'', ''route'', ''show'', ''default'']]\<rparr> \<and>
          (\<exists>pre l post g i.
             Split_lines out = pre @ l # post \<and>
             (\<forall>x\<in>set pre. \<not> HasPrefix x ''default'') \<and> HasPrefix l ''default'' \<and>
             scan_fields (Fields l) ([], []) = (g, i) \<and> g \<noteq> [] \<and> i \<noteq> [] \<and>
             c' = c\<lparr>gateway := g, iface := i\<rparr>))"
    (is "?L = (okay \<and> w' = ?w1 \<and> ?E)")
proof -
  have r: "run ex [''ip'', ''route'', ''show'', ''default''] w = ((okay, out), ?w1)"
    using assms by (simp add: run_def)
  show ?thesis
  proof (cases okay)
    case False
    then show ?thesis using r by (simp add: DetectHostGateway_linux_def)
  next
    case True
    from first_default_split [of "Split_lines out"] show ?thesis
    proof
      assume none: "\<forall>x\<in>set (Split_lines out). \<not> HasPrefix x ''default''"
      have no_split: "\<not> ?E"
        using none by auto
      have "fst (DetectHostGateway_linux ex c w) = Some NotFound"
        using r True scan_lines_none [OF none] by (simp add: DetectHostGateway_linux_def)
      then have "\<not> ?L" by auto
      then show ?thesis using no_split by blast
    next
      assume "\<exists>pre l post. Split_lines out = pre @ l # post \<and>
          (\<forall>x\<in>set pre. \<not> HasPrefix x ''default'') \<and> HasPrefix l ''default''"
      then obtain pre l post where sp: "Split_lines out = pre @ l # post"
        and nd: "\<forall>x\<in>set pre. \<not> HasPrefix x ''default''" and d: "HasPrefix l ''default''"
        by blast
      obtain g i where gi: "scan_fields (Fields l) ([], []) = (g, i)"
        by (cases "scan_fields (Fields l) ([], [])") auto
      have sl: "scan_lines (Split_lines out) = (g, i)"
        using scan_lines_first [OF nd d] sp gi by simp
      have only: "g' = g \<and> i' = i"
        if "Split_lines out = pre' @ l' # post'" "\<forall>x\<in>set pre'. \<not> HasPrefix x ''default''"
          "HasPrefix l' ''default''" "scan_fields (Fields l') ([], []) = (g', i')"
        for pre' l' post' g' i'
      proof -
        have "pre @ l # post = pre' @ l' # post'" using sp that(1) by simp
        from first_default_unique [OF this nd d that(2,3)] have "l' = l" by simp
        then show ?thesis using that(4) gi by simp
      qed
      show ?thesis
      proof (cases "g = [] \<or> i = []")
        case bad: True
        have "fst (DetectHostGateway_linux ex c w) = Some NotFound"
          using r True sl bad by (auto simp: DetectHostGateway_linux_def)
        then have ne: "\<not> ?L" by auto
        have "\<not> ?E"
        proof
          assume ?E
          then obtain pre' l' post' g' i' where
            x: "Split_lines out = pre' @ l' # post'" "\<forall>x\<in>set pre'. \<not> HasPrefix x ''default''"
              "HasPrefix l' ''default''" "scan_fields (Fields l') ([], []) = (g', i')"
              "g' \<noteq> []" "i' \<noteq> []"
            by blast
          from only [OF x(1,2,3,4)] x(5,6) bad show False by simp
        qed
        then show ?thesis using ne by blast
      next
        case good: False
        have res: "DetectHostGateway_linux ex c w = (None, c\<lparr>gateway := g, iface := i\<rparr>, ?w1)"
          using r True sl good by (simp add: DetectHostGateway_linux_def)
        show ?thesis
        proof
          assume ?L
          then have "c' = c\<lparr>gateway := g, iface := i\<rparr>" "w' = ?w1" using res by simp_all
          then show "okay \<and> w' = ?w1 \<and> ?E"
            using True sp nd d gi good by blast
        next
          assume rhs: "okay \<and> w' = ?w1 \<and> ?E"
          then obtain pre' l' post' g' i' where
            x: "Split_lines out = pre' @ l' # post'" "\<forall>x\<in>set pre'. \<not> HasPrefix x ''default''"
              "HasPrefix l' ''default''" "scan_fields (Fields l') ([], []) = (g', i')"
              "c' = c\<lparr>gateway := g', iface := i'\<rparr>"
            by blast
          have "g' = g" "i' = i" using only [OF x(1,2,3,4)] by simp_all
          then show ?L
            using res x(5) rhs by simp
        qed
      qed
    qed
  qed
qed

lemma scan_route_get_append:
  "scan_route_get (xs @ ys) c = scan_route_get ys (scan_route_get xs c)"
  by (induction xs arbitrary: c) auto

lemma scan_route_get_fields:
  "scan_route_get ls c =
     c\<lparr>gateway := last_tagged ''gateway:'' ls (gateway c),
       iface := last_tagged ''interface:'' ls (iface c)\<rparr>"
proof (induction ls rule: rev_induct)
  case Nil
  then show ?case by (simp add: last_tagged_def)
next
  case (snoc l ls)
  show ?case
    unfolding scan_route_get_append snoc
    by (simp add: last_tagged_def)
qed

lemma DetectHostGateway_darwin_last_lines:
  assumes "ex (host w) [''route'', ''-n'', ''get'', ''default''] = ((okay, out), h')"
  shows "DetectHostGateway_darwin ex c w =
     (if \<not> okay
      then (Some (ExecError [''route'', ''-n'', ''get'', ''default'']), c,
            logf ''Failed to get default route''
              (w\<lparr>host := h', trace := trace w @ [Cmd [''route'', ''-n'', ''get'', ''default'']]\<rparr>))
      else if last_tagged ''gateway:'' (Split_lines out) (gateway c) = [] \<or>
              last_tagged ''interface:'' (Split_lines out) (iface c) = []
      then (Some NotFound,
            c\<lparr>gateway := last_tagged ''gateway:'' (Split_lines out) (gateway c),
              iface := last_tagged ''interface:'' (Split_lines out) (iface c)\<rparr>,
            logf ''Host default gateway or interface not found''
              (w\<lparr>host := h', trace := trace w @ [Cmd [''route'', ''-n'', ''get'', ''default'']]\<rparr>))
      else (None,
            c\<lparr>gateway := last_tagged ''gateway:'' (Split_lines out) (gateway c),
              iface := last_tagged ''interface:'' (Split_lines out) (iface c)\<rparr>,
            w\<lparr>host := h', trace := trace w @ [Cmd [''route'', ''-n'', ''get'', ''default'']]\<rparr>))"
proof -
  have r: "run ex [''route'', ''-n'', ''get'', ''default''] w =
      ((okay, out), w\<lparr>host := h', trace := trace w @ [Cmd [''route'', ''-n'', ''get'', ''default'']]\<rparr>)"
    using assms by (simp add: run_def)
  show ?thesis
    unfolding DetectHostGateway_darwin_def r scan_route_get_fields by simp
qed

text \<open>
  C4 (amended). On Linux detection succeeds exactly when the route command ran and the
  first line of its output that starts with "default" yields, field by field, both a
  gateway and an interface; the session then holds the values of that line. Lines before
  it that do not start with "default" are skipped and white space between fields is
  immaterial; lines after it are never looked at, so detection fails when the first
  default line lacks a gateway or an interface even if a later default line has both.
  On macOS the gateway and the interface are those of the last lines that, trimmed, start
  with "gateway:" and "interface:" (what the session held is kept when there is no such
  line), and detection fails exactly when the command failed or one of the two is empty.
\<close>

theorem DetectHostGateway_parses_route_output:
  assumes "ex (host w) [''ip'', ''route'', ''show'', ''default''] = ((okay, out), h')"
    and "exD (host wD) [''route'', ''-n'', ''get'', ''default''] = ((okD, outD), hD)"
  shows "((DetectHostGateway_linux ex c w = (None, c', w')) =
          (okay \<and>
           w' = w\<lparr>host := h', trace := trace w @ [Cmd [''ip'', ''route'', ''show'', ''default'']]\<rparr> \<and>
           (\<exists>pre l post g i.
              Split_lines out = pre @ l # post \<and>
              (\<forall>x\<in>set pre. \<not> HasPrefix x ''default'') \<and> HasPrefix l ''default'' \<and>
              scan_fields (Fields l) ([], []) = (g, i) \<and> g \<noteq> [] \<and> i \<noteq> [] \<and>
              c' = c\<lparr>gateway := g, iface := i\<rparr>))) \<and>
         DetectHostGateway_darwin exD cD wD =
           (if \<not> okD
            then (Some (ExecError [''route'', ''-n'', ''get'', ''default'']), cD,
                  logf ''Failed to get default route''
                    (wD\<lparr>host := hD,
                        trace := trace wD @ [Cmd [''route'', ''-n'', ''get'', ''default'']]\<rparr>))
            else if last_tagged ''gateway:'' (Split_lines outD) (gateway cD) = [] \<or>
                    last_tagged ''interface:'' (Split_lines outD) (iface cD) = []
            then (Some NotFound,
                  cD\<lparr>gateway := last_tagged ''gateway:'' (Split_lines outD) (gateway cD),
                     iface := last_tagged ''interface:'' (Split_lines outD) (iface cD)\<rparr>,
                  logf ''Host default gateway or interface not found''
                    (wD\<lparr>host := hD,
                        trace := trace wD @ [Cmd [''route'', ''-n'', ''get'', ''default'']]\<rparr>))
            else (None,
                  cD\<lparr>gateway := last_tagged ''gateway:'' (Split_lines outD) (gateway cD),
                     iface := last_tagged ''interface:'' (Split_lines outD) (iface cD)\<rparr>,
                  wD\<lparr>host := hD,
                     trace := trace wD @ [Cmd [''route'', ''-n'', ''get'', ''default'']]\<rparr>))"
  using DetectHostGateway_linux_iff
      [where ex = ex and w = w and okay = okay and out = out and h' = h', OF assms(1)]
    DetectHostGateway_darwin_last_lines
      [where ex = exD and w = wD and okay = okD and out = outD and h' = hD, OF assms(2)]
  by blast

lemmas string_eval = Split_lines_def Fields_def ascii_space_def HasPrefix_def TrimSpace_def
  TrimPrefix_def

theorem DetectHostGateway_parses_route_output_witness:
  "DetectHostGateway_linux (answers route_show_sample) conflux0 world0 =
     (None, conflux0\<lparr>gateway := ''192.168.1.1'', iface := ''eth0''\<rparr>,
      world0\<lparr>host := (), trace := trace world0 @ [Cmd [''ip'', ''route'', ''show'', ''default'']]\<rparr>) \<and>
   DetectHostGateway_darwin (answers route_get_sample) newConflux world0 =
     (None, newConflux\<lparr>gateway := ''192.168.1.1'', iface := ''en0''\<rparr>,
      world0\<lparr>host := (), trace := trace world0 @ [Cmd [''route'', ''-n'', ''get'', ''default'']]\<rparr>)"
proof -
  have h: "answers route_show_sample (host world0) [''ip'', ''route'', ''show'', ''default''] =
      ((True, route_show_sample), ())"
    by (simp add: answers_def)
  have hD: "answers route_get_sample (host world0) [''route'', ''-n'', ''get'', ''default''] =
      ((True, route_get_sample), ())"
    by (simp add: answers_def)
  have sp: "Split_lines route_show_sample =
      [''10.8.0.0/24 dev tun0 scope link''] @
      (''default   via 192.168.1.1'' @ [CHR 0x09] @ ''dev  eth0 proto dhcp metric 100'') #
      [''default via 10.0.0.1 dev wlan0 metric 600'', []]"
    by (simp add: Split_lines_def route_show_sample_def)
  have nd: "\<forall>x\<in>set [''10.8.0.0/24 dev tun0 scope link'']. \<not> HasPrefix x ''default''"
    by (simp add: HasPrefix_def)
  have d: "HasPrefix (''default   via 192.168.1.1'' @ [CHR 0x09] @ ''dev  eth0 proto dhcp metric 100'')
      ''default''"
    by (simp add: HasPrefix_def)
  have sc: "scan_fields
      (Fields (''default   via 192.168.1.1'' @ [CHR 0x09] @ ''dev  eth0 proto dhcp metric 100''))
      ([], []) = (''192.168.1.1'', ''eth0'')"
    by (simp add: Fields_def ascii_space_def)
  have e: "\<exists>pre l post g i.
      Split_lines route_show_sample = pre @ l # post \<and>
      (\<forall>x\<in>set pre. \<not> HasPrefix x ''default'') \<and> HasPrefix l ''default'' \<and>
      scan_fields (Fields l) ([], []) = (g, i) \<and> g \<noteq> [] \<and> i \<noteq> [] \<and>
      conflux0\<lparr>gateway := ''192.168.1.1'', iface := ''eth0''\<rparr> = conflux0\<lparr>gateway := g, iface := i\<rparr>"
    using sp nd d sc by blast
  have g: "last_tagged ''gateway:'' (Split_lines route_get_sample) (gateway newConflux) =
      ''192.168.1.1''"
    by (simp add: last_tagged_def route_get_sample_def string_eval)
  have i: "last_tagged ''interface:'' (Split_lines route_get_sample) (iface newConflux) = ''en0''"
    by (simp add: last_tagged_def route_get_sample_def string_eval)
  show ?thesis
    using DetectHostGateway_parses_route_output
      [where ex = "answers route_show_sample" and w = world0 and okay = True
         and out = route_show_sample and h' = "()" and c = conflux0
         and c' = "conflux0\<lparr>gateway := ''192.168.1.1'', iface := ''eth0''\<rparr>"
         and w' = "world0\<lparr>host := (),
           trace := trace world0 @ [Cmd [''ip'', ''route'', ''show'', ''default'']]\<rparr>"
         and exD = "answers route_get_sample" and wD = world0 and okD = True
         and outD = route_get_sample and hD = "()" and cD = newConflux,
       OF h hD] e
    by (simp add: g i)
qed

text \<open>
  The claim as stated fails: the second default line yields a gateway and an interface,
  and detection fails because the first one has no gateway.
\<close>

theorem DetectHostGateway_parses_route_output_counterexample:
  "''default via 10.0.0.1 dev eth0 metric 100'' \<in> set (Split_lines route_show_two_defaults) \<and>
   HasPrefix ''default via 10.0.0.1 dev eth0 metric 100'' ''default'' \<and>
   scan_fields (Fields ''default via 10.0.0.1 dev eth0 metric 100'') ([], []) =
     (''10.0.0.1'', ''eth0'') \<and>
   fst (DetectHostGateway_linux (answers route_show_two_defaults) conflux0 world0) = Some NotFound"
  by (simp add: string_eval route_show_two_defaults_def DetectHostGateway_linux_def run_def
      answers_def world0_def logf_def)

subsection \<open>Host configuration on a Linux host\<close>

lemmas linux_cmds = linux_addr_def linux_portal_rules_def linux_rift_routes_def
  linux_portal_clean_def linux_rift_clean_def

lemmas linux_host_eval = linux_exec_def route_add_def route_del_def needs_link_def atoi_def
  run_def logf_def

lemma host_run: "host (snd (run ex a w)) = snd (ex (host w) a)"
  by (simp add: run_def split: prod.splits)

lemma fst_run: "fst (run ex a w) = fst (ex (host w) a)"
  by (simp add: run_def split: prod.splits)

lemma host_logf: "host (logf msg w) = host w"
  by (simp add: logf_def)

lemma must_all_ok:
  assumes "\<And>h a. a \<in> fst ` set cs \<Longrightarrow> Q h \<Longrightarrow> fst (fst (ex h a)) \<and> Q (snd (ex h a))"
    and "Q (host w)"
  shows "fst (must ex cs w) = None \<and>
         trace (snd (must ex cs w)) = trace w @ map (Cmd \<circ> fst) cs \<and>
         Q (host (snd (must ex cs w)))"
  using assms
proof (induction cs arbitrary: w)
  case Nil
  then show ?case by simp
next
  case (Cons x cs w)
  obtain a msg where x: "x = (a, msg)" by (cases x)
  obtain okay out w1 where r: "run ex a w = ((okay, out), w1)"
    by (cases "run ex a w") auto
  have step: "fst (fst (ex (host w) a)) \<and> Q (snd (ex (host w) a))"
    using Cons.prems(1) [of a "host w"] Cons.prems(2) x by simp
  have ok: okay using step fst_run [of ex a w] r by (metis fst_conv)
  have q: "Q (host w1)" using step host_run [of ex a w] r by simp
  have t: "trace w1 = trace w @ [Cmd a]" using trace_run [of ex a w] r by simp
  have "fst (must ex cs w1) = None \<and>
         trace (snd (must ex cs w1)) = trace w1 @ map (Cmd \<circ> fst) cs \<and>
         Q (host (snd (must ex cs w1)))"
    using Cons.IH [of w1] Cons.prems(1) q by simp
  then show ?case using x r ok t by simp
qed

lemma attempt_all:
  assumes "\<And>h a. a \<in> fst ` set cs \<Longrightarrow> Q h \<Longrightarrow> Q (snd (ex h a))"
    and "Q (host w)"
  shows "trace (attempt ex cs w) = trace w @ map (Cmd \<circ> fst) cs \<and> Q (host (attempt ex cs w))"
  using assms
proof (induction cs arbitrary: w)
  case Nil
  then show ?case by simp
next
  case (Cons x cs w)
  obtain a msg where x: "x = (a, msg)" by (cases x)
  obtain okay out w1 where r: "run ex a w = ((okay, out), w1)"
    by (cases "run ex a w") auto
  have q: "Q (host w1)"
    using Cons.prems(1) [of a "host w"] Cons.prems(2) x host_run [of ex a w] r by simp
  have t: "trace w1 = trace w @ [Cmd a]" using trace_run [of ex a w] r by simp
  let ?w2 = "if okay then w1 else logf msg w1"
  have "trace (attempt ex cs ?w2) = trace ?w2 @ map (Cmd \<circ> fst) cs \<and>
        Q (host (attempt ex cs ?w2))"
    using Cons.IH [of ?w2] Cons.prems(1) q by (simp add: host_logf)
  then show ?case using x r t by (simp add: trace_logf)
qed

lemma attempt_append: "attempt ex (xs @ ys) w = attempt ex ys (attempt ex xs w)"
proof (induction xs arbitrary: w)
  case Nil
  then show ?case by simp
next
  case (Cons x xs w)
  obtain a msg where x: "x = (a, msg)" by (cases x)
  show ?case using Cons.IH by (simp add: x split: prod.splits)
qed

lemma route_cmd_keeps:
  "ip_forward (snd (linux_exec h [''ip'', ''route'', op, d, ''via'', g, ''dev'', i])) = ip_forward h \<and>
   links (snd (linux_exec h [''ip'', ''route'', op, d, ''via'', g, ''dev'', i])) = links h"
  by (simp add: linux_exec_def route_add_def route_del_def split: option.splits)

lemma portal_setup_ok:
  assumes "a \<in> fst ` set (linux_addr ip netmask @ linux_portal_rules c)"
    and "''veilnet'' \<in> set (links h) \<and> ip_forward h = b"
  shows "fst (fst (linux_exec h a)) \<and>
         (''veilnet'' \<in> set (links (snd (linux_exec h a))) \<and> ip_forward (snd (linux_exec h a)) = b)"
proof -
  have "a = [''ip'', ''addr'', ''flush'', ''dev'', ''veilnet''] \<or>
        a = [''ip'', ''addr'', ''add'', ip @ ''/'' @ netmask, ''dev'', ''veilnet''] \<or>
        a = [''ip'', ''link'', ''set'', ''up'', ''veilnet''] \<or>
        a = [''iptables'', ''-A'', ''FORWARD'', ''-i'', ''veilnet'', ''-j'', ''ACCEPT''] \<or>
        a = [''iptables'', ''-A'', ''FORWARD'', ''-o'', ''veilnet'', ''-j'', ''ACCEPT''] \<or>
        a = [''iptables'', ''-t'', ''nat'', ''-A'', ''POSTROUTING'', ''-o'', iface c, ''-j'', ''MASQUERADE'']"
    using assms(1) by (auto simp: linux_addr_def linux_portal_rules_def)
  then show ?thesis
    using assms(2)
    by (elim disjE) (simp_all add: linux_exec_def needs_link_def)
qed

lemma portal_clean_keeps:
  assumes "a \<in> fst ` set (take 3 (linux_portal_clean c))"
    and "''veilnet'' \<in> set (links h) \<and> ip_forward h = b"
  shows "''veilnet'' \<in> set (links (snd (linux_exec h a))) \<and> ip_forward (snd (linux_exec h a)) = b"
proof -
  have "a = [''iptables'', ''-D'', ''FORWARD'', ''-i'', ''veilnet'', ''-j'', ''ACCEPT''] \<or>
        a = [''iptables'', ''-D'', ''FORWARD'', ''-o'', ''veilnet'', ''-j'', ''ACCEPT''] \<or>
        a = [''iptables'', ''-t'', ''nat'', ''-D'', ''POSTROUTING'', ''-o'', iface c, ''-j'', ''MASQUERADE'']"
    using assms(1) by (auto simp: linux_portal_clean_def)
  then show ?thesis
    using assms(2)
    by (elim disjE) (simp_all add: linux_exec_def)
qed

lemma exec_route_cmds:
  "linux_exec h [''ip'', ''route'', ''add'', d, ''via'', g, ''dev'', i] =
     route_add \<lparr>dst = d, via = g, dev = i, metric = 0\<rparr> h"
  "linux_exec h [''ip'', ''route'', ''add'', d, ''via'', g, ''dev'', i, ''metric'', ''50''] =
     route_add \<lparr>dst = d, via = g, dev = i, metric = 50\<rparr> h"
  "linux_exec h [''ip'', ''route'', ''add'', d, ''dev'', i] =
     route_add \<lparr>dst = d, via = [], dev = i, metric = 0\<rparr> h"
  "linux_exec h [''ip'', ''route'', ''del'', d, ''via'', g, ''dev'', i] =
     route_del (\<lambda>r. dst r = d \<and> via r = g \<and> dev r = i) h"
  "linux_exec h [''ip'', ''route'', ''del'', d, ''dev'', i] =
     route_del (\<lambda>r. dst r = d \<and> dev r = i) h"
  by (simp_all add: linux_exec_def atoi_def)

lemma exec_addr_cmds:
  "linux_exec h [''ip'', ''addr'', ''flush'', ''dev'', l] = needs_link l h"
  "linux_exec h [''ip'', ''addr'', ''add'', x, ''dev'', l] = needs_link l h"
  "linux_exec h [''ip'', ''link'', ''set'', ''up'', l] = needs_link l h"
  by (simp_all add: linux_exec_def)

lemma must_Cons_None:
  "(must ex ((a, m) # rest) w = (None, w')) =
     (fst (fst (ex (host w) a)) \<and>
      must ex rest (w\<lparr>host := snd (ex (host w) a), trace := trace w @ [Cmd a]\<rparr>) = (None, w'))"
  by (cases "ex (host w) a") (auto simp: run_def split: if_splits)

lemma must_Nil: "must ex [] w = (None, w)"
  by simp

lemma insort_metric_0: "metric r = 0 \<Longrightarrow> insort_key metric r xs = r # xs"
  by (cases xs) simp_all

lemma filter_insort_out: "\<not> R r \<Longrightarrow> filter R (insort_key f r xs) = filter R xs"
  by (induction xs) simp_all

lemma count_insort_in:
  "R r \<Longrightarrow> length (filter R (insort_key f r xs)) = Suc (length (filter R xs))"
  by (induction xs) simp_all

lemma del_first_count:
  "del_first P xs = Some ys \<Longrightarrow> length (filter P xs) = Suc (length (filter P ys))"
  by (induction xs arbitrary: ys) (auto split: if_splits)

lemma del_first_keeps:
  "del_first P xs = Some ys \<Longrightarrow> \<forall>x. P x \<longrightarrow> \<not> R x \<Longrightarrow> filter R ys = filter R xs"
  by (induction xs arbitrary: ys) (auto split: if_splits)

lemma del_first_subset: "del_first P xs = Some ys \<Longrightarrow> set ys \<subseteq> set xs"
  by (induction xs arbitrary: ys) (auto split: if_splits)

lemma del_first_None: "del_first P xs = None \<Longrightarrow> filter P xs = []"
  by (induction xs) (auto split: if_splits)

lemma route_add_result:
  "snd (route_add r h) = h \<or> snd (route_add r h) = h\<lparr>routes := insort_key metric r (routes h)\<rparr>"
  by (simp add: route_add_def)

text \<open>The last three commands of a Rift configuration that succeeds.\<close>

lemma rift_routes_ok:
  assumes "must linux_exec (linux_rift_routes c) w = (None, w')"
  shows "\<exists>rs. del_first (default_via c) (routes (host w)) = Some rs \<and>
           iface c \<in> set (links (host w)) \<and>
           \<not> (\<exists>x\<in>set (insort_key metric
                  \<lparr>dst = ''default'', via = gateway c, dev = iface c, metric = 50\<rparr> rs).
                dst x = ''default'' \<and> metric x = 0) \<and>
           host w' = (host w)\<lparr>routes :=
             \<lparr>dst = ''default'', via = [], dev = ''veilnet'', metric = 0\<rparr> #
             insort_key metric \<lparr>dst = ''default'', via = gateway c, dev = iface c, metric = 50\<rparr> rs\<rparr>"
proof -
  have p: "(\<lambda>r. dst r = ''default'' \<and> via r = gateway c \<and> dev r = iface c) = default_via c"
    by (simp add: default_via_def fun_eq_iff)
  show ?thesis
    using assms
    by (auto simp: linux_rift_routes_def must_Cons_None must_Nil exec_route_cmds p
        route_del_def route_add_def insort_metric_0 list_ex_iff
        simp del: must.simps split: option.splits if_splits)
qed

lemma addr_ok:
  "must linux_exec (linux_addr ip netmask) w = (None, w') \<Longrightarrow> host w' = host w"
  by (auto simp: linux_addr_def must_Cons_None must_Nil exec_addr_cmds needs_link_def
      simp del: must.simps)

lemma host_attempt:
  "host (attempt ex cs w) = foldl (\<lambda>h a. snd (ex h a)) (host w) (map fst cs)"
proof (induction cs arbitrary: w)
  case Nil
  then show ?case by simp
next
  case (Cons x cs w)
  obtain a msg where x: "x = (a, msg)" by (cases x)
  obtain okay out w1 where r: "run ex a w = ((okay, out), w1)"
    by (cases "run ex a w") auto
  have h1: "host w1 = snd (ex (host w) a)"
    using host_run [of ex a w] r by simp
  show ?case
    using Cons.IH [of "if okay then w1 else logf msg w1"] x r h1
    by (simp add: host_logf)
qed

text \<open>
  A Rift configuration that succeeds: what it leaves in the routing table. The table
  before the default route is deleted is that of the host, possibly with the route to
  the control-plane host added.
\<close>

lemma rift_apply_shape:
  assumes an: "anchor c = Some a" and vhn: "veilHost a \<noteq> ''default''" and rift: "\<not> portal c"
    and ok: "ConfigHost_linux linux_exec c ip netmask (on_host h) = (None, c1, w1)"
  shows "c1 = c \<and>
         (\<exists>rsA rs.
            filter (default_via c) rsA = filter (default_via c) (routes h) \<and>
            filter (\<lambda>r. is_default r \<and> \<not> default_via c r) rsA =
              filter (\<lambda>r. is_default r \<and> \<not> default_via c r) (routes h) \<and>
            del_first (default_via c) rsA = Some rs \<and>
            iface c \<in> set (links (host w1)) \<and>
            \<not> (\<exists>x\<in>set (insort_key metric
                   \<lparr>dst = ''default'', via = gateway c, dev = iface c, metric = 50\<rparr> rs).
                 dst x = ''default'' \<and> metric x = 0) \<and>
            routes (host w1) =
              \<lparr>dst = ''default'', via = [], dev = ''veilnet'', metric = 0\<rparr> #
              insort_key metric \<lparr>dst = ''default'', via = gateway c, dev = iface c, metric = 50\<rparr> rs)"
proof -
  define vh where "vh = veilHost a"
  define V where "V = \<lparr>dst = vh, via = gateway c, dev = iface c, metric = 0\<rparr>"
  define wA where "wA =
     (if vh \<noteq> []
      then snd (run linux_exec [''ip'', ''route'', ''add'', vh, ''via'', gateway c,
                                ''dev'', iface c] (on_host h))
      else on_host h)"
  have gv: "GetVeilHost (anchor c) = Inr vh"
    by (simp add: GetVeilHost_def an vh_def)
  have nV: "\<not> default_via c V" "\<not> (is_default V \<and> \<not> default_via c V)"
    using vhn by (simp_all add: V_def default_via_def is_default_def vh_def)
  have hA: "host wA = h \<or> host wA = h\<lparr>routes := insort_key metric V (routes h)\<rparr>"
    using route_add_result [of V h]
    by (auto simp: wA_def host_run exec_route_cmds V_def on_host_def)
  then have fA: "filter (default_via c) (routes (host wA)) = filter (default_via c) (routes h)"
    "filter (\<lambda>r. is_default r \<and> \<not> default_via c r) (routes (host wA)) =
       filter (\<lambda>r. is_default r \<and> \<not> default_via c r) (routes h)"
    using nV by (auto simp: filter_insort_out)
  have argA: "(if vh \<noteq> []
       then snd (run linux_exec [''ip'', ''route'', ''add'', vh, ''via'', gateway c,
                                 ''dev'', iface c] (on_host h))
       else on_host h) = wA"
    by (simp add: wA_def)
  obtain rB wB where mB0: "must linux_exec (linux_addr ip netmask) wA = (rB, wB)"
    by (cases "must linux_exec (linux_addr ip netmask) wA") auto
  obtain rR wR where mR0: "must linux_exec (linux_rift_routes c) wB = (rR, wR)"
    by (cases "must linux_exec (linux_rift_routes c) wB") auto
  have cfg: "ConfigHost_linux linux_exec c ip netmask (on_host h) =
      (case rB of Some e \<Rightarrow> (Some e, c, wB) | None \<Rightarrow> (rR, c, wR))"
    unfolding ConfigHost_linux_def gv
    using rift by (cases rB) (simp_all add: argA mB0 mR0 del: must.simps)
  have rB: "rB = None"
    using ok unfolding cfg by (cases rB) simp_all
  have mB: "must linux_exec (linux_addr ip netmask) wA = (None, wB)"
    using mB0 rB by simp
  have "(rR, c, wR) = (None, c1, w1)"
    using ok unfolding cfg rB by simp
  then have mR: "must linux_exec (linux_rift_routes c) wB = (None, w1)" and c1: "c1 = c"
    using mR0 by simp_all
  have hB: "host wB = host wA" using addr_ok [OF mB] .
  from rift_routes_ok [OF mR] obtain rs where
    d: "del_first (default_via c) (routes (host wB)) = Some rs"
    and l: "iface c \<in> set (links (host wB))"
    and z: "\<not> (\<exists>x\<in>set (insort_key metric
                   \<lparr>dst = ''default'', via = gateway c, dev = iface c, metric = 50\<rparr> rs).
                 dst x = ''default'' \<and> metric x = 0)"
    and h1: "host w1 = (host wB)\<lparr>routes :=
             \<lparr>dst = ''default'', via = [], dev = ''veilnet'', metric = 0\<rparr> #
             insort_key metric \<lparr>dst = ''default'', via = gateway c, dev = iface c, metric = 50\<rparr> rs\<rparr>"
    by blast
  show ?thesis
    using c1 fA d l z h1 hB by auto
qed

text \<open>The retraction from such a table.\<close>

lemma rift_clean_shape:
  assumes an: "anchor c = Some a" and vhn: "veilHost a \<noteq> ''default''" and rift: "\<not> portal c"
    and tbl: "routes (host w1) =
                \<lparr>dst = ''default'', via = [], dev = ''veilnet'', metric = 0\<rparr> # rsC"
    and lnk: "iface c \<in> set (links (host w1))"
    and zero: "\<not> (\<exists>x\<in>set rsC. dst x = ''default'' \<and> metric x = 0)"
    and one: "length (filter (default_via c) rsC) = 1"
  shows "\<exists>w2 rsG.
           CleanHostConfiguraions_linux linux_exec c w1 = (None, w2) \<and>
           routes (host w2) =
             \<lparr>dst = ''default'', via = gateway c, dev = iface c, metric = 0\<rparr> # rsG \<and>
           filter (default_via c) rsG = [] \<and>
           filter (\<lambda>r. is_default r \<and> \<not> default_via c r) rsG =
             filter (\<lambda>r. is_default r \<and> \<not> default_via c r) rsC"
proof -
  define vh where "vh = veilHost a"
  define T where "T = \<lparr>dst = ''default'', via = [], dev = ''veilnet'', metric = 0\<rparr>"
  define R where "R = \<lparr>dst = ''default'', via = gateway c, dev = iface c, metric = 0\<rparr>"
  define Pv where "Pv = (\<lambda>r::route. dst r = vh \<and> via r = gateway c \<and> dev r = iface c)"
  define wF where "wF =
     (if vh \<noteq> []
      then snd (run linux_exec [''ip'', ''route'', ''del'', vh, ''via'', gateway c,
                                ''dev'', iface c] w1)
      else w1)"
  have gv: "GetVeilHost (anchor c) = Inr vh"
    by (simp add: GetVeilHost_def an vh_def)
  have nPv: "\<forall>x. Pv x \<longrightarrow> \<not> default_via c x"
    "\<forall>x. Pv x \<longrightarrow> \<not> (is_default x \<and> \<not> default_via c x)" "\<not> Pv T"
    using vhn by (auto simp: Pv_def default_via_def is_default_def vh_def T_def)
  \<comment> \<open>the route to the control-plane host is deleted, or not\<close>
  have "\<exists>rsE. routes (host wF) = T # rsE \<and> links (host wF) = links (host w1) \<and>
      (rsE = rsC \<or> del_first Pv rsC = Some rsE)"
  proof (cases "vh = []")
    case True
    then show ?thesis using tbl by (simp add: wF_def T_def)
  next
    case False
    have hF: "host wF = snd (route_del Pv (host w1))"
      using False by (simp add: wF_def host_run exec_route_cmds Pv_def)
    show ?thesis
    proof (cases "del_first Pv rsC")
      case None
      then show ?thesis
        using nPv(3) tbl by (simp add: hF route_del_def T_def [symmetric])
    next
      case (Some rsE)
      then show ?thesis
        using nPv(3) tbl by (simp add: hF route_del_def T_def [symmetric])
    qed
  qed
  then obtain rsE where rE: "routes (host wF) = T # rsE"
    and lE: "links (host wF) = links (host w1)"
    and cE: "rsE = rsC \<or> del_first Pv rsC = Some rsE"
    by blast
  have fE: "filter (default_via c) rsE = filter (default_via c) rsC"
    "filter (\<lambda>r. is_default r \<and> \<not> default_via c r) rsE =
       filter (\<lambda>r. is_default r \<and> \<not> default_via c r) rsC"
    "set rsE \<subseteq> set rsC"
    using cE nPv del_first_keeps [of Pv rsC rsE] del_first_subset [of Pv rsC rsE] by auto
  \<comment> \<open>the demoted route is the one default route through the gateway that is left\<close>
  obtain rsG where dG: "del_first (default_via c) rsE = Some rsG"
    using one fE(1) del_first_None [of "default_via c" rsE]
    by (cases "del_first (default_via c) rsE") auto
  have nG: "filter (default_via c) rsG = []"
    using del_first_count [OF dG] one fE(1) by simp
  have qG: "filter (\<lambda>r. is_default r \<and> \<not> default_via c r) rsG =
      filter (\<lambda>r. is_default r \<and> \<not> default_via c r) rsC"
    using del_first_keeps [OF dG, of "\<lambda>r. is_default r \<and> \<not> default_via c r"] fE(2) by simp
  have zG: "\<not> list_ex (\<lambda>x. dst x = ''default'' \<and> metric x = 0) rsG"
    using zero fE(3) del_first_subset [OF dG] by (auto simp: list_ex_iff)
  \<comment> \<open>the three commands of the retraction\<close>
  have p: "(\<lambda>r. dst r = ''default'' \<and> via r = gateway c \<and> dev r = iface c) = default_via c"
    by (simp add: default_via_def fun_eq_iff)
  have s1: "snd (linux_exec (host wF) [''ip'', ''route'', ''del'', ''default'', ''dev'', ''veilnet'']) =
      (host wF)\<lparr>routes := rsE\<rparr>"
    by (simp add: exec_route_cmds route_del_def rE T_def)
  have s2: "snd (linux_exec ((host wF)\<lparr>routes := rsE\<rparr>)
        [''ip'', ''route'', ''del'', ''default'', ''via'', gateway c, ''dev'', iface c]) =
      (host wF)\<lparr>routes := rsG\<rparr>"
    by (simp add: exec_route_cmds p route_del_def dG)
  have s3: "snd (linux_exec ((host wF)\<lparr>routes := rsG\<rparr>)
        [''ip'', ''route'', ''add'', ''default'', ''via'', gateway c, ''dev'', iface c]) =
      (host wF)\<lparr>routes := R # rsG\<rparr>"
    using zG lnk lE by (simp add: exec_route_cmds route_add_def insort_metric_0 R_def)
  have "routes (host (attempt linux_exec (linux_rift_clean c) wF)) = R # rsG"
    by (simp add: host_attempt linux_rift_clean_def s1 s2 s3 del: attempt.simps)
  moreover have "CleanHostConfiguraions_linux linux_exec c w1 =
      (None, attempt linux_exec (linux_rift_clean c) wF)"
    unfolding CleanHostConfiguraions_linux_def gv wF_def
    using rift by simp
  ultimately show ?thesis
    using nG qG by (auto simp: R_def)
qed

lemma filter_default_without:
  "filter (default_via c) xs = [] \<Longrightarrow>
   filter is_default xs = filter (\<lambda>r. is_default r \<and> \<not> default_via c r) xs"
  by (induction xs) (auto split: if_splits)

text \<open>
  C6 (amended). On a Linux host on which at most one default route goes through the
  detected gateway and interface, whatever other routes it has, after a Rift-mode
  \<^verbatim>\<open>ConfigHost\<close> that succeeds \<^verbatim>\<open>CleanHostConfiguraions\<close> leaves, as default routes, one
  route through the detected gateway and interface followed by the other default routes
  the host had: the default route of the virtual interface and the demoted route of
  metric 50 are gone, gateway and interface are those from before. The metric is not
  carried over: the route is added again without one, so it has metric 0.
\<close>

theorem rift_apply_then_clean:
  assumes an: "anchor c = Some a" and vhn: "veilHost a \<noteq> ''default''" and rift: "\<not> portal c"
    and uniq: "length (filter (default_via c) (routes h)) \<le> 1"
    and ok: "ConfigHost_linux linux_exec c ip netmask (on_host h) = (None, c1, w1)"
  shows "c1 = c \<and>
         fst (CleanHostConfiguraions_linux linux_exec c1 w1) = None \<and>
         filter is_default (routes (host (snd (CleanHostConfiguraions_linux linux_exec c1 w1)))) =
           \<lparr>dst = ''default'', via = gateway c, dev = iface c, metric = 0\<rparr> #
           filter (\<lambda>r. is_default r \<and> \<not> default_via c r) (routes h)"
proof -
  let ?Q = "\<lambda>r. is_default r \<and> \<not> default_via c r"
  let ?D = "\<lparr>dst = ''default'', via = gateway c, dev = iface c, metric = 50\<rparr>"
  from rift_apply_shape [OF an vhn rift ok] obtain rsA rs where
    c1: "c1 = c"
    and pA: "filter (default_via c) rsA = filter (default_via c) (routes h)"
    and qA: "filter ?Q rsA = filter ?Q (routes h)"
    and d: "del_first (default_via c) rsA = Some rs"
    and l: "iface c \<in> set (links (host w1))"
    and z: "\<not> (\<exists>x\<in>set (insort_key metric ?D rs). dst x = ''default'' \<and> metric x = 0)"
    and t: "routes (host w1) =
         \<lparr>dst = ''default'', via = [], dev = ''veilnet'', metric = 0\<rparr> # insort_key metric ?D rs"
    by blast
  have pD: "default_via c ?D" "\<not> ?Q ?D"
    by (simp_all add: default_via_def)
  have "length (filter (default_via c) rs) = 0"
    using del_first_count [OF d] pA uniq by simp
  then have one: "length (filter (default_via c) (insort_key metric ?D rs)) = 1"
    using count_insort_in [of "default_via c" ?D metric rs] pD(1) by simp
  have q: "filter ?Q (insort_key metric ?D rs) = filter ?Q (routes h)"
    using filter_insort_out [of ?Q ?D metric rs] pD(2)
      del_first_keeps [OF d, of ?Q] qA by simp
  from rift_clean_shape [OF an vhn rift t l z one] obtain w2 rsG where
    cl: "CleanHostConfiguraions_linux linux_exec c w1 = (None, w2)"
    and r2: "routes (host w2) =
         \<lparr>dst = ''default'', via = gateway c, dev = iface c, metric = 0\<rparr> # rsG"
    and nG: "filter (default_via c) rsG = []"
    and qG: "filter ?Q rsG = filter ?Q (insort_key metric ?D rs)"
    by blast
  have "filter is_default (routes (host w2)) =
      \<lparr>dst = ''default'', via = gateway c, dev = iface c, metric = 0\<rparr> # filter ?Q (routes h)"
    using r2 filter_default_without [OF nG] qG q by (simp add: is_default_def)
  then show ?thesis
    using c1 cl by simp
qed

lemma sysctl_read:
  "linux_exec x [''sysctl'', ''-n'', ''net.ipv4.ip_forward''] =
     ((True, (if ip_forward x then ''1'' else ''0'') @ [CHR 0x0A]), x)"
  by (simp add: linux_exec_def)

lemma sysctl_write:
  "linux_exec x [''sysctl'', ''-w'', ''net.ipv4.ip_forward=1''] = ((True, []), x\<lparr>ip_forward := True\<rparr>)"
  "linux_exec x [''sysctl'', ''-w'', ''net.ipv4.ip_forward=0''] = ((True, []), x\<lparr>ip_forward := False\<rparr>)"
  by (simp_all add: linux_exec_def)

lemma TrimSpace_switch:
  "TrimSpace [CHR ''1'', CHR 0x0A] = ''1''" "TrimSpace [CHR ''0'', CHR 0x0A] = ''0''"
  by (simp_all add: TrimSpace_def ascii_space_def)

text \<open>
  C7. On a host with the virtual interface present, a Portal-mode \<^verbatim>\<open>ConfigHost\<close>
  succeeds, records whether forwarding was enabled before, and enables it exactly when it
  was not; \<^verbatim>\<open>CleanHostConfiguraions\<close> after it disables forwarding exactly when it
  had not been enabled before, so that the switch is back in its state from before.
\<close>

theorem portal_apply_then_clean:
  assumes lk: "''veilnet'' \<in> set (links h)"
    and an: "anchor c = Some a" and po: "portal c"
  shows "case ConfigHost_linux linux_exec c ip netmask (on_host h) of
           (r1, c1, w1) \<Rightarrow>
             r1 = None \<and> ipForwardEnabled c1 = ip_forward h \<and>
             ip_forward (host w1) \<and>
             (Cmd [''sysctl'', ''-w'', ''net.ipv4.ip_forward=1''] \<in> set (trace w1)) =
               (\<not> ip_forward h) \<and>
             (case CleanHostConfiguraions_linux linux_exec c1 w1 of
                (r2, w2) \<Rightarrow>
                  r2 = None \<and> ip_forward (host w2) = ip_forward h \<and>
                  (Cmd [''sysctl'', ''-w'', ''net.ipv4.ip_forward=0''] \<in> set (trace w2)) =
                    (\<not> ip_forward h))"
proof -
  define Q where "Q = (\<lambda>b (x::linux_host). ''veilnet'' \<in> set (links x) \<and> ip_forward x = b)"
  define vh where "vh = veilHost a"
  define add where "add = [''ip'', ''route'', ''add'', vh, ''via'', gateway c, ''dev'', iface c]"
  define del where "del = [''ip'', ''route'', ''del'', vh, ''via'', gateway c, ''dev'', iface c]"
  define wA where "wA = (if vh \<noteq> [] then snd (run linux_exec add (on_host h)) else on_host h)"
  have gv: "GetVeilHost (anchor c) = Inr vh"
    by (simp add: GetVeilHost_def an vh_def)
  have qA: "Q (ip_forward h) (host wA)"
    using lk route_cmd_keeps [of h "''add''" vh "gateway c" "iface c"]
    by (simp add: Q_def wA_def host_run add_def on_host_def)
  have tA: "trace wA = (if vh \<noteq> [] then [Cmd add] else [])"
    by (simp add: wA_def trace_run on_host_def)
  \<comment> \<open>addresses and link\<close>
  define wB where "wB = snd (must linux_exec (linux_addr ip netmask) wA)"
  have B: "fst (must linux_exec (linux_addr ip netmask) wA) = None \<and>
      trace wB = trace wA @ map (Cmd \<circ> fst) (linux_addr ip netmask) \<and> Q (ip_forward h) (host wB)"
    unfolding wB_def
  proof (rule must_all_ok [where Q = "Q (ip_forward h)"])
    show "Q (ip_forward h) (host wA)" by (rule qA)
  next
    fix x e assume "e \<in> fst ` set (linux_addr ip netmask)" "Q (ip_forward h) x"
    then show "fst (fst (linux_exec x e)) \<and> Q (ip_forward h) (snd (linux_exec x e))"
      using portal_setup_ok [of e ip netmask c x "ip_forward h"] by (auto simp: Q_def)
  qed
  have mB: "must linux_exec (linux_addr ip netmask) wA = (None, wB)"
    using B by (simp add: wB_def prod_eq_iff)
  \<comment> \<open>firewall rules\<close>
  define wC where "wC = snd (must linux_exec (linux_portal_rules c) wB)"
  have C: "fst (must linux_exec (linux_portal_rules c) wB) = None \<and>
      trace wC = trace wB @ map (Cmd \<circ> fst) (linux_portal_rules c) \<and> Q (ip_forward h) (host wC)"
    unfolding wC_def
  proof (rule must_all_ok [where Q = "Q (ip_forward h)"])
    show "Q (ip_forward h) (host wB)" using B by simp
  next
    fix x e assume "e \<in> fst ` set (linux_portal_rules c)" "Q (ip_forward h) x"
    then show "fst (fst (linux_exec x e)) \<and> Q (ip_forward h) (snd (linux_exec x e))"
      using portal_setup_ok [of e ip netmask c x "ip_forward h"] by (auto simp: Q_def)
  qed
  have mC: "must linux_exec (linux_portal_rules c) wB = (None, wC)"
    using C by (simp add: wC_def prod_eq_iff)
  have fC: "ip_forward (host wC) = ip_forward h" using C by (simp add: Q_def)
  \<comment> \<open>the switch\<close>
  define wD where "wD = wC\<lparr>trace := trace wC @ [Cmd [''sysctl'', ''-n'', ''net.ipv4.ip_forward'']]\<rparr>"
  have rD: "run linux_exec [''sysctl'', ''-n'', ''net.ipv4.ip_forward''] wC =
      ((True, (if ip_forward h then ''1'' else ''0'') @ [CHR 0x0A]), wD)"
    by (simp add: run_def sysctl_read fC wD_def)
  define wE where "wE = wD\<lparr>host := (host wD)\<lparr>ip_forward := True\<rparr>,
      trace := trace wD @ [Cmd [''sysctl'', ''-w'', ''net.ipv4.ip_forward=1'']]\<rparr>"
  have mE: "must linux_exec [([''sysctl'', ''-w'', ''net.ipv4.ip_forward=1''], msg)] wD = (None, wE)"
    for msg
    by (simp add: run_def sysctl_write wE_def)
  define c1 where "c1 = c\<lparr>ipForwardEnabled := ip_forward h\<rparr>"
  define w1 where "w1 = (if ip_forward h then wD else wE)"
  have argA: "(if vh \<noteq> []
       then snd (run linux_exec [''ip'', ''route'', ''add'', vh, ''via'', gateway c,
                                 ''dev'', iface c] (on_host h))
       else on_host h) = wA"
    by (simp add: wA_def add_def)
  have cfg: "ConfigHost_linux linux_exec c ip netmask (on_host h) = (None, c1, w1)"
  proof (cases "ip_forward h")
    case True
    then show ?thesis
      unfolding ConfigHost_linux_def gv
      using rD po
      by (simp add: argA mB mC c1_def w1_def TrimSpace_switch del: must.simps)
  next
    case False
    then show ?thesis
      unfolding ConfigHost_linux_def gv
      using rD po
      by (simp add: argA mB mC mE c1_def w1_def TrimSpace_switch del: must.simps)
  qed
  have t1: "trace w1 =
      (if vh \<noteq> [] then [Cmd add] else []) @ map (Cmd \<circ> fst) (linux_addr ip netmask) @
      map (Cmd \<circ> fst) (linux_portal_rules c) @ [Cmd [''sysctl'', ''-n'', ''net.ipv4.ip_forward'']] @
      (if ip_forward h then [] else [Cmd [''sysctl'', ''-w'', ''net.ipv4.ip_forward=1'']])"
    using B C tA by (simp add: w1_def wD_def wE_def)
  have on1: "ip_forward (host w1)"
    using fC by (simp add: w1_def wD_def wE_def)
  have l1: "''veilnet'' \<in> set (links (host w1))"
    using C by (simp add: w1_def wD_def wE_def Q_def)
  have en: "(Cmd [''sysctl'', ''-w'', ''net.ipv4.ip_forward=1''] \<in> set (trace w1)) = (\<not> ip_forward h)"
    unfolding t1 by (auto simp: add_def linux_addr_def linux_portal_rules_def)
  have no0: "Cmd [''sysctl'', ''-w'', ''net.ipv4.ip_forward=0''] \<notin> set (trace w1)"
    unfolding t1 by (auto simp: add_def linux_addr_def linux_portal_rules_def)
  \<comment> \<open>teardown\<close>
  define wF where "wF = (if vh \<noteq> [] then snd (run linux_exec del w1) else w1)"
  have qF: "Q True (host wF)"
    using l1 on1 route_cmd_keeps [of "host w1" "''del''" vh "gateway c" "iface c"]
    by (simp add: Q_def wF_def host_run del_def)
  have tF: "trace wF = trace w1 @ (if vh \<noteq> [] then [Cmd del] else [])"
    by (simp add: wF_def trace_run)
  define wG where "wG = attempt linux_exec (take 3 (linux_portal_clean c1)) wF"
  have G: "trace wG = trace wF @ map (Cmd \<circ> fst) (take 3 (linux_portal_clean c1)) \<and>
      Q True (host wG)"
    unfolding wG_def
  proof (rule attempt_all [where Q = "Q True"])
    show "Q True (host wF)" by (rule qF)
  next
    fix x e assume "e \<in> fst ` set (take 3 (linux_portal_clean c1))" "Q True x"
    then show "Q True (snd (linux_exec x e))"
      using portal_clean_keeps [of e c1 x True] by (simp add: Q_def)
  qed
  define w2 where "w2 = attempt linux_exec (drop 3 (linux_portal_clean c1)) wG"
  have w2: "attempt linux_exec (linux_portal_clean c1) wF = w2"
    using attempt_append [of linux_exec "take 3 (linux_portal_clean c1)"
        "drop 3 (linux_portal_clean c1)" wF]
    by (simp add: w2_def wG_def)
  have d3: "drop 3 (linux_portal_clean c1) =
      (if ip_forward h then []
       else [([''sysctl'', ''-w'', ''net.ipv4.ip_forward=0''], ''failed to disable IP forwarding'')])"
    by (simp add: linux_portal_clean_def c1_def)
  have f2: "ip_forward (host w2) = ip_forward h"
    using G by (simp add: w2_def d3 run_def sysctl_write Q_def)
  have t2: "trace w2 = trace wG @
      (if ip_forward h then [] else [Cmd [''sysctl'', ''-w'', ''net.ipv4.ip_forward=0'']])"
    by (simp add: w2_def d3 run_def sysctl_write)
  have dis: "(Cmd [''sysctl'', ''-w'', ''net.ipv4.ip_forward=0''] \<in> set (trace w2)) = (\<not> ip_forward h)"
    unfolding t2 using G tF no0 by (auto simp: del_def linux_portal_clean_def)
  have argF: "(if vh \<noteq> []
       then snd (run linux_exec [''ip'', ''route'', ''del'', vh, ''via'', gateway c1,
                                 ''dev'', iface c1] w1)
       else w1) = wF"
    by (simp add: wF_def del_def c1_def)
  have gv1: "GetVeilHost (anchor c1) = Inr vh" "portal c1"
    using gv po by (simp_all add: c1_def)
  have cl: "CleanHostConfiguraions_linux linux_exec c1 w1 = (None, w2)"
    unfolding CleanHostConfiguraions_linux_def gv1
    by (simp add: argF gv1 w2 del: attempt.simps)
  show ?thesis
    unfolding cfg using cl on1 en f2 dis by (simp add: c1_def)
qed

lemmas session_defs = rift_session_def portal_session_def started_session_def two_routes_def
  conflux0_def newConflux_def

text \<open>
  On a host with a subnet route, a bypass route and a second default route through
  another gateway, all of which are kept.
\<close>

theorem rift_apply_then_clean_witness:
  "fst (ConfigHost_linux linux_exec rift_session ''10.128.0.7'' ''24'' (on_host lan_host)) = None \<and>
   fst (CleanHostConfiguraions_linux linux_exec rift_session
     (snd (snd (ConfigHost_linux linux_exec rift_session ''10.128.0.7'' ''24''
        (on_host lan_host))))) = None \<and>
   filter is_default (routes (host (snd (CleanHostConfiguraions_linux linux_exec rift_session
     (snd (snd (ConfigHost_linux linux_exec rift_session ''10.128.0.7'' ''24''
        (on_host lan_host)))))))) =
     [\<lparr>dst = ''default'', via = ''192.168.1.1'', dev = ''eth0'', metric = 0\<rparr>,
      \<lparr>dst = ''default'', via = ''10.0.0.1'', dev = ''wlan0'', metric = 600\<rparr>]"
proof -
  have e: "fst (ConfigHost_linux linux_exec rift_session ''10.128.0.7'' ''24'' (on_host lan_host)) =
        None"
      "fst (snd (ConfigHost_linux linux_exec rift_session ''10.128.0.7'' ''24''
         (on_host lan_host))) = rift_session"
    by (simp_all add: ConfigHost_linux_def session_defs GetVeilHost_def on_host_def lan_host_def
        linux_cmds linux_host_eval)
  have an: "anchor rift_session = Some \<lparr>veilHost = ''203.0.113.9''\<rparr>"
    and vhn: "veilHost \<lparr>veilHost = ''203.0.113.9''\<rparr> \<noteq> ''default''"
    and rift: "\<not> portal rift_session"
    and uniq: "length (filter (default_via rift_session) (routes lan_host)) \<le> 1"
    by (simp_all add: session_defs lan_host_def default_via_def)
  have ok: "ConfigHost_linux linux_exec rift_session ''10.128.0.7'' ''24'' (on_host lan_host) =
      (None, rift_session,
       snd (snd (ConfigHost_linux linux_exec rift_session ''10.128.0.7'' ''24''
          (on_host lan_host))))"
    using e by (simp add: prod_eq_iff)
  have g: "gateway rift_session = ''192.168.1.1''" "iface rift_session = ''eth0''"
    by (simp_all add: session_defs)
  show ?thesis
    using rift_apply_then_clean [OF an vhn rift uniq ok] e(1)
    by (simp add: g lan_host_def default_via_def is_default_def)
qed

text \<open>
  The claim as stated fails. On a host whose default route has metric 100, detection
  finds the gateway and the interface, and after apply and retract the route is back with
  metric 0. On a host with two default routes through the same gateway and interface,
  apply and retract both succeed and leave the demoted route of metric 50 in the table,
  next to a route of metric 0, where the host had routes of metric 10 and 20.
\<close>

theorem rift_apply_then_clean_counterexample:
  "routes dhcp_host =
     [\<lparr>dst = ''default'', via = ''192.168.1.1'', dev = ''eth0'', metric = 100\<rparr>] \<and>
   fst (snd (DetectHostGateway_linux linux_exec (rift_session\<lparr>gateway := [], iface := []\<rparr>)
     (on_host dhcp_host))) = rift_session \<and>
   (case ConfigHost_linux linux_exec rift_session ''10.128.0.7'' ''24'' (on_host dhcp_host) of
      (r1, c1, w1) \<Rightarrow>
        r1 = None \<and>
        (case CleanHostConfiguraions_linux linux_exec c1 w1 of
           (r2, w2) \<Rightarrow>
             r2 = None \<and>
             routes (host w2) =
               [\<lparr>dst = ''default'', via = ''192.168.1.1'', dev = ''eth0'', metric = 0\<rparr>])) \<and>
   (case ConfigHost_linux linux_exec rift_session ''10.128.0.7'' ''24'' (on_host twin_host) of
      (r1, c1, w1) \<Rightarrow>
        r1 = None \<and>
        (case CleanHostConfiguraions_linux linux_exec c1 w1 of
           (r2, w2) \<Rightarrow>
             r2 = None \<and> logs w2 = [] \<and>
             routes (host w2) =
               [\<lparr>dst = ''default'', via = ''192.168.1.1'', dev = ''eth0'', metric = 0\<rparr>,
                \<lparr>dst = ''default'', via = ''192.168.1.1'', dev = ''eth0'', metric = 50\<rparr>]))"
  by (simp add: ConfigHost_linux_def CleanHostConfiguraions_linux_def session_defs
      GetVeilHost_def on_host_def dhcp_host_def twin_host_def linux_cmds linux_host_eval
      DetectHostGateway_linux_def show_route_def itoa.simps digit_def string_eval)

theorem portal_apply_then_clean_witness:
  "case ConfigHost_linux linux_exec portal_session ''10.128.0.7'' ''24'' (on_host dhcp_host) of
     (r1, c1, w1) \<Rightarrow>
       r1 = None \<and> ipForwardEnabled c1 = False \<and> ip_forward (host w1) \<and>
       Cmd [''sysctl'', ''-w'', ''net.ipv4.ip_forward=1''] \<in> set (trace w1) \<and>
       (case CleanHostConfiguraions_linux linux_exec c1 w1 of
          (r2, w2) \<Rightarrow>
            r2 = None \<and> ip_forward (host w2) = False \<and>
            Cmd [''sysctl'', ''-w'', ''net.ipv4.ip_forward=0''] \<in> set (trace w2))"
proof -
  have "''veilnet'' \<in> set (links dhcp_host)"
    "anchor portal_session = Some \<lparr>veilHost = ''203.0.113.9''\<rparr>" "portal portal_session"
    by (simp_all add: dhcp_host_def session_defs)
  from portal_apply_then_clean [OF this, of "''10.128.0.7''" "''24''"]
  show ?thesis by (simp add: dhcp_host_def split: prod.splits)
qed

subsection \<open>Shutdown\<close>

lemma Stop_linux_panics:
  "\<not> once c \<Longrightarrow>
   Stop_linux ex ord c w =
     (Some NilPointer, c\<lparr>once := True, anchor := None\<rparr>,
      if anchor c \<noteq> None then emit AnchorStop w else w)"
  by (simp add: Stop_linux_def CleanHostConfiguraions_linux_def GetVeilHost_def)

lemma Stops_done: "once c \<Longrightarrow> Stops (Stop_darwin ex ord) n c w = (None, c, w)"
  by (induction n) (simp_all add: Stop_darwin_def)

lemma Stop_darwin_once:
  assumes "anchor c = Some a" and "\<not> once c"
  shows "Stops (Stop_darwin ex ord) (Suc n) c w = Stop_darwin ex ord c w \<and>
         fst (Stop_darwin ex ord c w) = None \<and>
         trace (snd (snd (Stop_darwin ex ord c w))) =
           trace (snd (RemoveBypassRoutes ex Darwin ord c
             (snd (CleanHostConfiguraions_darwin ex c (emit AnchorStop w))))) @
           (if device c \<noteq> None then [DeviceClose] else [])"
proof -
  have cl: "CleanHostConfiguraions_darwin ex (c\<lparr>once := True\<rparr>) v =
      CleanHostConfiguraions_darwin ex c v" "fst (CleanHostConfiguraions_darwin ex c v) = None" for v
    using assms(1) by (simp_all add: CleanHostConfiguraions_darwin_def GetVeilHost_def darwin_clean_def)
  obtain w1 where c1: "CleanHostConfiguraions_darwin ex c (emit AnchorStop w) = (None, w1)"
    using cl(2) [of "emit AnchorStop w"] by (cases "CleanHostConfiguraions_darwin ex c (emit AnchorStop w)") auto
  have rm: "RemoveBypassRoutes ex Darwin ord (c\<lparr>once := True\<rparr>) w1 =
      (c\<lparr>once := True\<rparr>, snd (RemoveBypassRoutes ex Darwin ord c w1))"
    by (simp add: RemoveBypassRoutes_def)
  have one: "Stop_darwin ex ord c w =
      (None, c\<lparr>once := True\<rparr>,
       if device c \<noteq> None then emit DeviceClose (snd (RemoveBypassRoutes ex Darwin ord c w1))
       else snd (RemoveBypassRoutes ex Darwin ord c w1))"
    using assms by (simp add: Stop_darwin_def cl(1) c1 rm)
  show ?thesis
    unfolding Stops.simps one using Stops_done [of "c\<lparr>once := True\<rparr>" ex ord n] c1
    by (simp add: emit_def)
qed

text \<open>
  C8. On a started session with two recorded bypass routes, the Linux \<^verbatim>\<open>Stop\<close>
  stops the anchor, sets \<^verbatim>\<open>c.anchor\<close> to nil and then panics in
  \<^verbatim>\<open>CleanHostConfiguraions\<close>, which calls \<^verbatim>\<open>GetVeilHost\<close> on it: no host
  configuration is retracted, no bypass route removed, the interface not closed. The macOS
  \<^verbatim>\<open>Stop\<close>, which keeps the anchor, runs the four steps in order on the same session.
\<close>

theorem Stop_linux_nil_anchor:
  "Stop_linux always_ok id started_session world0 =
     (Some NilPointer, started_session\<lparr>once := True, anchor := None\<rparr>, world0\<lparr>trace := [AnchorStop]\<rparr>) \<and>
   trace (snd (snd (Stop_darwin always_ok id started_session world0))) =
     [AnchorStop,
      Cmd [''route'', ''-n'', ''del'', ''203.0.113.9'', ''192.168.1.1''],
      Cmd [''route'', ''-n'', ''delete'', ''default'', ''-interface'', ''veilnet''],
      Cmd [''route'', ''-n'', ''delete'', ''default''],
      Cmd [''route'', ''-n'', ''add'', ''default'', ''192.168.1.1''],
      Cmd [''route'', ''-n'', ''del'', ''1.1.1.1''],
      Cmd [''route'', ''-n'', ''del'', ''1.0.0.1''],
      DeviceClose]"
  by (simp add: Stop_linux_def Stop_darwin_def session_defs CleanHostConfiguraions_linux_def
      CleanHostConfiguraions_darwin_def GetVeilHost_def emit_def world0_def darwin_clean_def
      run_def always_ok_def RemoveBypassRoutes_def bypass_del_cmd_def)

end
